theory Spec2Isabelle
  imports Main
begin

section \<open>Python text\<close>

text \<open>
  A Python \<open>str\<close> is a sequence of Unicode code points, and \<open>len\<close>, \<open>strip\<close>,
  \<open>splitlines\<close> and the regular expression engine all work on code points. A text is
  therefore a list of code points (natural numbers); \<open>lit\<close> reads an ASCII literal.
\<close>

type_synonym pystr = "nat list"

definition lit :: "string \<Rightarrow> pystr" where
  "lit s = map of_char s"

text \<open>
  \<open>str.isspace\<close> on one character, which is also what \<open>strip\<close>, \<open>rstrip\<close> and the
  regular expression class \<open>\s\<close> use: U+0009..U+000D, U+001C..U+0020, U+0085, U+00A0,
  U+1680, U+2000..U+200A, U+2028, U+2029, U+202F, U+205F, U+3000.
\<close>

definition is_space :: "nat \<Rightarrow> bool" where
  "is_space c \<longleftrightarrow>
     (9 \<le> c \<and> c \<le> 13) \<or> (28 \<le> c \<and> c \<le> 32) \<or> c = 133 \<or> c = 160 \<or> c = 5760
     \<or> (8192 \<le> c \<and> c \<le> 8202) \<or> c = 8232 \<or> c = 8233 \<or> c = 8239 \<or> c = 8287
     \<or> c = 12288"

text \<open>
  The line boundaries of \<open>str.splitlines\<close>: \<open>\n\<close>, \<open>\v\<close>, \<open>\f\<close>, \<open>\r\<close>,
  U+001C..U+001E, U+0085, U+2028, U+2029 (and the pair \<open>\r\n\<close>, which counts once).
\<close>

definition is_linebreak :: "nat \<Rightarrow> bool" where
  "is_linebreak c \<longleftrightarrow>
     (10 \<le> c \<and> c \<le> 13) \<or> (28 \<le> c \<and> c \<le> 30) \<or> c = 133 \<or> c = 8232 \<or> c = 8233"

definition lstrip :: "pystr \<Rightarrow> pystr" where
  "lstrip s = dropWhile is_space s"

definition rstrip :: "pystr \<Rightarrow> pystr" where
  "rstrip s = rev (dropWhile is_space (rev s))"

definition strip :: "pystr \<Rightarrow> pystr" where
  "strip s = rstrip (lstrip s)"

text \<open>\<open>s.rstrip("\n")\<close>: only the newline character is removed.\<close>

definition rstrip_nl :: "pystr \<Rightarrow> pystr" where
  "rstrip_nl s = rev (dropWhile (\<lambda>c. c = 10) (rev s))"

fun startswith :: "pystr \<Rightarrow> pystr \<Rightarrow> bool" where
  "startswith [] s = True"
| "startswith (p # ps) [] = False"
| "startswith (p # ps) (c # cs) = (p = c \<and> startswith ps cs)"

definition endswith :: "pystr \<Rightarrow> pystr \<Rightarrow> bool" where
  "endswith p s = startswith (rev p) (rev s)"

text \<open>\<open>sub in s\<close> on texts: \<open>sub\<close> occurs in \<open>s\<close> as a contiguous piece.\<close>

fun py_in :: "pystr \<Rightarrow> pystr \<Rightarrow> bool" where
  "py_in sub [] = (sub = [])"
| "py_in sub (c # cs) = (startswith sub (c # cs) \<or> py_in sub cs)"

text \<open>
  \<open>s.splitlines()\<close>: the lines of \<open>s\<close> without their boundaries; a text that ends in a
  boundary has no empty last line, and the empty text has no line. \<open>cur\<close> is the line
  being read.
\<close>

fun splitlines_from :: "pystr \<Rightarrow> pystr \<Rightarrow> pystr list" where
  "splitlines_from cur [] = (if cur = [] then [] else [cur])"
| "splitlines_from cur (c # cs) =
     (case cs of
        d # ds \<Rightarrow>
          if c = 13 \<and> d = 10 then cur # splitlines_from [] ds
          else if is_linebreak c then cur # splitlines_from [] cs
          else splitlines_from (cur @ [c]) cs
      | [] \<Rightarrow> if is_linebreak c then [cur] else [cur @ [c]])"

definition splitlines :: "pystr \<Rightarrow> pystr list" where
  "splitlines s = splitlines_from [] s"

text \<open>\<open>"\n".join(xs)\<close>.\<close>

fun join_nl :: "pystr list \<Rightarrow> pystr" where
  "join_nl [] = []"
| "join_nl [x] = x"
| "join_nl (x # y # ys) = x @ 10 # join_nl (y # ys)"

section \<open>processor.py: markdown cleanup\<close>

text \<open>
  The loop of \<open>_clean_markdown\<close> over the lines, with its two variables \<open>output\<close> and
  \<open>prev_blank\<close>.
\<close>

fun clean_loop :: "pystr list \<Rightarrow> bool \<Rightarrow> pystr list \<Rightarrow> pystr list" where
  "clean_loop output prev_blank [] = output"
| "clean_loop output prev_blank (line # lines) =
     (let stripped = rstrip line in
      if stripped = [] then
        (if \<not> prev_blank then clean_loop (output @ [[]]) True lines
         else clean_loop output True lines)
      else clean_loop (output @ [stripped]) False lines)"

definition clean_markdown :: "pystr \<Rightarrow> pystr" where
  "clean_markdown text =
     (let lines = splitlines (strip text);
          output = clean_loop [] True lines;
          result = join_nl output
      in if \<not> endswith [10] result then result @ [10] else result)"


text \<open>
  Lines 262 to 264 of \<open>_process_single_rule\<close>: the accepted response is cleaned, and the
  disclaimer is appended when the cleaned text does not hold it. \<open>DISCLAIMER_TEXT\<close> is
  imported from the validator module, whose source does not define it; it is a
  parameter here.
\<close>

definition final_note :: "pystr \<Rightarrow> pystr \<Rightarrow> pystr" where
  "final_note disclaimer_text response =
     (let cleaned = clean_markdown response
      in if \<not> py_in disclaimer_text cleaned
         then rstrip_nl cleaned @ [10, 10] @ disclaimer_text @ [10]
         else cleaned)"

section \<open>validator.py\<close>

definition REQUIRED_HEADERS :: "pystr list" where
  "REQUIRED_HEADERS =
     [lit ''### Technical Context'', lit ''### Investigation Steps'',
      lit ''### Prioritization'', lit ''### Blind Spots and Assumptions'']"

definition DISCLAIMER_PREFIX :: pystr where
  "DISCLAIMER_PREFIX = lit ''> **Disclaimer:**''"

definition MINIMUM_LENGTH :: nat where
  "MINIMUM_LENGTH = 200"

text \<open>
  The entries of \<open>ValidationResult.errors\<close>. The source holds them as messages:
  "Response is empty", "Response too short (n chars, minimum 200)", "Missing required
  header: h", "Missing disclaimer blockquote (> **Disclaimer:**)", "Found * bullet(s)
  ...", "Found triple-backtick code block(s) ...", "Section 'h' has no content after the
  header".
\<close>

datatype validation_error =
    ResponseEmpty
  | TooShort nat
  | MissingHeader pystr
  | MissingDisclaimer
  | StarBullets
  | CodeBlock
  | NoSectionContent pystr

record ValidationResult =
  passed :: bool
  errors :: "validation_error list"

text \<open>
  \<open>re.compile(r"^\s*\*\s", re.MULTILINE).search(text)\<close>. With \<open>MULTILINE\<close>, \<open>^\<close> matches
  at the start of the text and right after each \<open>\n\<close>; \<open>\s*\<close> may run over line ends, and
  since \<open>*\<close> is no whitespace only the longest run of whitespace can be followed by it.
\<close>

definition star_bullet_here :: "pystr \<Rightarrow> bool" where
  "star_bullet_here s =
     (case dropWhile is_space s of
        c # d # rest \<Rightarrow> c = 42 \<and> is_space d
      | _ \<Rightarrow> False)"

fun star_bullet_search :: "bool \<Rightarrow> pystr \<Rightarrow> bool" where
  "star_bullet_search line_start [] = False"
| "star_bullet_search line_start (c # cs) =
     ((line_start \<and> star_bullet_here (c # cs)) \<or> star_bullet_search (c = 10) cs)"

text \<open>The inner loop of \<open>_check_section_content\<close> over the lines after a header.\<close>

fun has_content :: "pystr list \<Rightarrow> bool" where
  "has_content [] = False"
| "has_content (subsequent # rest) =
     (let stripped = strip subsequent in
      if startswith (lit ''### '') stripped then False
      else if stripped \<noteq> [] \<and> \<not> startswith (lit ''>'') stripped then True
      else if startswith (lit ''>'') stripped then True
      else has_content rest)"

text \<open>
  One round of the outer loop: the first line that is the header once stripped; no
  such line is \<open>StopIteration\<close>, and the header is passed over.
\<close>

definition check_header :: "pystr list \<Rightarrow> pystr \<Rightarrow> validation_error list" where
  "check_header lines header =
     (case dropWhile (\<lambda>line. strip line \<noteq> header) lines of
        [] \<Rightarrow> []
      | found # after \<Rightarrow> if \<not> has_content after then [NoSectionContent header] else [])"

definition check_section_content :: "pystr \<Rightarrow> validation_error list" where
  "check_section_content text =
     (let lines = splitlines (strip text)
      in concat (map (check_header lines) REQUIRED_HEADERS))"

definition validate_response :: "pystr \<Rightarrow> ValidationResult" where
  "validate_response text =
     (if text = [] \<or> strip text = [] then \<lparr>passed = False, errors = [ResponseEmpty]\<rparr>
      else
        let errors1 =
              (if length (strip text) < MINIMUM_LENGTH then [TooShort (length (strip text))]
               else []);
            errors2 = errors1 @ map MissingHeader (filter (\<lambda>header. \<not> py_in header text) REQUIRED_HEADERS);
            errors3 = errors2 @ (if \<not> py_in DISCLAIMER_PREFIX text then [MissingDisclaimer] else []);
            errors4 = errors3 @ (if star_bullet_search True text then [StarBullets] else []);
            errors5 = errors4 @ (if py_in [96, 96, 96] text then [CodeBlock] else []);
            errors6 = errors5 @ check_section_content text
        in \<lparr>passed = (length errors6 = 0), errors = errors6\<rparr>)"

section \<open>cache.py\<close>

text \<open>
  The values a YAML document parses to, as far as the code looks at them: \<open>None\<close>,
  booleans, integers, texts, sequences and mappings (ordered, as \<open>CommentedMap\<close> is).
\<close>

datatype pyval =
    PNone
  | PBool bool
  | PInt int
  | PStr pystr
  | PSeq "pyval list"
  | PMap "(pystr \<times> pyval) list"

type_synonym doc = "(pystr \<times> pyval) list"

text \<open>Python's truth value of such a value (\<open>not v\<close> is its negation).\<close>

fun py_truthy :: "pyval \<Rightarrow> bool" where
  "py_truthy PNone = False"
| "py_truthy (PBool b) = b"
| "py_truthy (PInt n) = (n \<noteq> 0)"
| "py_truthy (PStr s) = (s \<noteq> [])"
| "py_truthy (PSeq xs) = (xs \<noteq> [])"
| "py_truthy (PMap m) = (m \<noteq> [])"

text \<open>
  \<open>not str(v).strip()\<close>: a text is blank when nothing is left after stripping;
  \<open>str\<close> of any other value (\<open>None\<close>, \<open>True\<close>, a number, a bracketed sequence or
  mapping) is never blank.
\<close>

fun str_blank :: "pyval \<Rightarrow> bool" where
  "str_blank (PStr s) = (strip s = [])"
| "str_blank v = False"

definition dict_has :: "pystr \<Rightarrow> doc \<Rightarrow> bool" where
  "dict_has k d = (k \<in> fst ` set d)"

text \<open>\<open>del d[k]\<close> for a key that is there.\<close>

definition dict_del :: "pystr \<Rightarrow> doc \<Rightarrow> doc" where
  "dict_del k d = filter (\<lambda>kv. fst kv \<noteq> k) d"

text \<open>\<open>d[k] = v\<close>: a key that is there keeps its place, a new key goes last.\<close>

fun dict_set :: "pystr \<Rightarrow> pyval \<Rightarrow> doc \<Rightarrow> doc" where
  "dict_set k v [] = [(k, v)]"
| "dict_set k v (kv # d) = (if fst kv = k then (k, v) # d else kv # dict_set k v d)"

text \<open>
  What the code takes from libraries: the SHA-256 hex digest of a text's UTF-8 bytes,
  the YAML serialiser of \<open>ruamel.yaml\<close>, and the constant \<open>DISCLAIMER_TEXT\<close>.
\<close>

record lib =
  sha256 :: "pystr \<Rightarrow> pystr"
  yaml_dump :: "doc \<Rightarrow> pystr"
  DISCLAIMER_TEXT :: pystr

definition compute_rule_hash :: "lib \<Rightarrow> doc \<Rightarrow> pystr" where
  "compute_rule_hash L rule_data =
     (let data_copy = rule_data;
          data_copy = (if dict_has (lit ''note'') data_copy then dict_del (lit ''note'') data_copy
                       else data_copy)
      in sha256 L (yaml_dump L data_copy))"

definition compute_prompt_hash :: "lib \<Rightarrow> pystr \<Rightarrow> pystr" where
  "compute_prompt_hash L prompt_text = sha256 L prompt_text"

definition CACHE_VERSION :: int where
  "CACHE_VERSION = 1"

text \<open>
  The cache index \<open>Cache.data\<close>, with the types of its schema
  \<open>{version, prompt_hash, rules: {path: {content_hash, last_processed}}}\<close>. A key of
  the index may be absent (the code reads with \<open>.get\<close>), and an entry is the list of
  its fields.
\<close>

type_synonym entry = "(pystr \<times> pystr) list"

record cache_data =
  version :: "int option"
  prompt_hash :: "pystr option"
  rules :: "(pystr \<rightharpoonup> entry) option"

text \<open>
  The cache file as \<open>_load\<close> finds it: absent; there but \<open>open\<close> raises \<open>OSError\<close>;
  bytes that are not UTF-8 (\<open>UnicodeDecodeError\<close>, which \<open>_load\<close> does not catch); text
  that is not JSON; JSON that is not an object; a JSON object. \<open>json.dump\<close> followed by
  \<open>json.load\<close> gives the index back, so a written file holds the index itself.
\<close>

datatype cache_file =
    NoFile
  | Unreadable
  | NotUtf8
  | NotJson
  | JsonOther
  | JsonObject cache_data

text \<open>What a function raises: \<open>SystemExit\<close> with its code, or an exception with its text.\<close>

datatype py_error = SystemExit int | PyException pystr

definition fresh_data :: cache_data where
  "fresh_data = \<lparr>version = Some CACHE_VERSION, prompt_hash = Some [], rules = Some Map.empty\<rparr>"

definition load :: "cache_file \<Rightarrow> cache_data \<Rightarrow> py_error + cache_data" where
  "load file data =
     (case file of
        NoFile \<Rightarrow> Inr data
      | Unreadable \<Rightarrow> Inr data
      | NotUtf8 \<Rightarrow> Inl (PyException (lit ''UnicodeDecodeError''))
      | NotJson \<Rightarrow> Inr data
      | JsonOther \<Rightarrow> Inr data
      | JsonObject loaded \<Rightarrow>
          if version loaded \<noteq> Some CACHE_VERSION then Inr data else Inr loaded)"

text \<open>\<open>Cache(output_dir)\<close>.\<close>

definition Cache_init :: "cache_file \<Rightarrow> py_error + cache_data" where
  "Cache_init file = load file fresh_data"

text \<open>
  \<open>save\<close>. An \<open>OSError\<close> is logged and not raised: when \<open>mkdir\<close> or \<open>open\<close> raises it
  the file is as before, when the write raises it the file is left cut short.
\<close>

datatype save_fault = MkdirFails | OpenFails | WriteFails

definition save :: "save_fault option \<Rightarrow> cache_data \<Rightarrow> cache_file \<Rightarrow> cache_file" where
  "save fault data file =
     (case fault of
        None \<Rightarrow> JsonObject data
      | Some MkdirFails \<Rightarrow> file
      | Some OpenFails \<Rightarrow> file
      | Some WriteFails \<Rightarrow> NotJson)"

text \<open>
  The mirrored output file as \<open>should_skip\<close> finds it: absent, there but \<open>open\<close> or
  \<open>yaml.load\<close> raises, or parsed to a value (\<open>None\<close> for an empty document).
\<close>

datatype output_file = Missing | LoadFails | Loaded pyval

text \<open>
  \<open>out_data.get("note", "") if out_data else ""\<close>; \<open>.get\<close> on a value that is no
  mapping raises \<open>AttributeError\<close>.
\<close>

definition get_note :: "pyval \<Rightarrow> py_error + pyval" where
  "get_note out_data =
     (if py_truthy out_data then
        (case out_data of
           PMap m \<Rightarrow> (case map_of m (lit ''note'') of None \<Rightarrow> Inr (PStr []) | Some v \<Rightarrow> Inr v)
         | _ \<Rightarrow> Inl (PyException (lit ''AttributeError'')))
      else Inr (PStr []))"

definition rules_or_empty :: "cache_data \<Rightarrow> (pystr \<rightharpoonup> entry)" where
  "rules_or_empty data = (case rules data of None \<Rightarrow> Map.empty | Some r \<Rightarrow> r)"

definition should_skip :: "cache_data \<Rightarrow> pystr \<Rightarrow> pystr \<Rightarrow> pystr \<Rightarrow> output_file \<Rightarrow> bool" where
  "should_skip data relative_path content_hash prompt_hash' out =
     (if prompt_hash data \<noteq> Some prompt_hash' then False
      else
        case rules_or_empty data relative_path of
          None \<Rightarrow> False
        | Some entry \<Rightarrow>
            if entry = [] \<or> map_of entry (lit ''content_hash'') \<noteq> Some content_hash then False
            else
              (case out of
                 Missing \<Rightarrow> False
               | LoadFails \<Rightarrow> False
               | Loaded out_data \<Rightarrow>
                   (case get_note out_data of
                      Inl e \<Rightarrow> False
                    | Inr note \<Rightarrow> if \<not> py_truthy note \<or> str_blank note then False else True)))"

text \<open>\<open>update_rule\<close>; \<open>now\<close> is \<open>datetime.now(timezone.utc).isoformat()\<close>.\<close>

definition update_rule :: "pystr \<Rightarrow> pystr \<Rightarrow> pystr \<Rightarrow> cache_data \<Rightarrow> cache_data" where
  "update_rule now relative_path content_hash data =
     (let data1 = (if rules data = None then data\<lparr>rules := Some Map.empty\<rparr> else data)
      in data1\<lparr>rules := Some ((rules_or_empty data1)
           (relative_path \<mapsto> [(lit ''content_hash'', content_hash), (lit ''last_processed'', now)]))\<rparr>)"

definition set_prompt_hash :: "pystr \<Rightarrow> cache_data \<Rightarrow> cache_data" where
  "set_prompt_hash h data = data\<lparr>prompt_hash := Some h\<rparr>"

section \<open>llm_provider.py\<close>

text \<open>
  What one call of the vendor's SDK raises, by the \<open>except\<close> clause that takes it: a rate
  limit, a timeout, a connection failure, an API error with its \<open>status_code\<close> (\<open>None\<close>
  when it has none), or anything else. What it returns otherwise is the content, \<open>None\<close>
  when the response has none.
\<close>

datatype backend_error =
    RateLimitError
  | APITimeoutError
  | APIConnectionError
  | APIError "int option"
  | OtherError

text \<open>
  What \<open>generate\<close> raises: an error of the backend, or the \<open>TypeError\<close> of
  \<open>raise last_exception\<close> when \<open>last_exception\<close> is still \<open>None\<close>.
\<close>

datatype generate_error = Raised backend_error | RaisedNone

text \<open>What \<open>generate\<close> does outside: the calls of the backend and the sleeps, in order.\<close>

datatype io_event = Call int | Sleep int

type_synonym backend = "int \<Rightarrow> backend_error + pystr option"

text \<open>
  \<open>OpenAIProvider.generate\<close>: the loop \<open>for attempt in range(1, api_max_retries + 1)\<close>
  from \<open>attempt\<close> on, with \<open>last_exception\<close> and the events so far; \<open>backend k\<close> is what
  the call of attempt \<open>k\<close> does.
\<close>

function openai_loop ::
  "backend \<Rightarrow> int \<Rightarrow> int \<Rightarrow> backend_error option \<Rightarrow> io_event list
     \<Rightarrow> (generate_error + pystr) \<times> io_event list" where
  "openai_loop backend api_max_retries attempt last_exception events =
     (if attempt > api_max_retries then
        (case last_exception of
           None \<Rightarrow> (Inl RaisedNone, events)
         | Some e \<Rightarrow> (Inl (Raised e), events))
      else
        case backend attempt of
          Inr content \<Rightarrow>
            (Inr (strip (case content of None \<Rightarrow> [] | Some c \<Rightarrow> c)), events @ [Call attempt])
        | Inl RateLimitError \<Rightarrow>
            openai_loop backend api_max_retries (attempt + 1) (Some RateLimitError)
              (events @ [Call attempt, Sleep (2 ^ nat attempt)])
        | Inl APITimeoutError \<Rightarrow>
            openai_loop backend api_max_retries (attempt + 1) (Some APITimeoutError)
              (events @ [Call attempt, Sleep (2 ^ nat attempt)])
        | Inl APIConnectionError \<Rightarrow>
            openai_loop backend api_max_retries (attempt + 1) (Some APIConnectionError)
              (events @ [Call attempt, Sleep (2 ^ nat attempt)])
        | Inl (APIError status_code) \<Rightarrow>
            (case status_code of
               Some code \<Rightarrow>
                 if code \<noteq> 0 \<and> code \<ge> 500 then
                   openai_loop backend api_max_retries (attempt + 1) (Some (APIError status_code))
                     (events @ [Call attempt, Sleep (2 ^ nat attempt)])
                 else (Inl (Raised (APIError status_code)), events @ [Call attempt])
             | None \<Rightarrow> (Inl (Raised (APIError status_code)), events @ [Call attempt]))
        | Inl OtherError \<Rightarrow> (Inl (Raised OtherError), events @ [Call attempt]))"
  by pat_completeness auto
termination
  by (relation "measure (\<lambda>(backend, api_max_retries, attempt, last_exception, events).
        nat (api_max_retries + 1 - attempt))") auto

definition openai_generate :: "backend \<Rightarrow> int \<Rightarrow> (generate_error + pystr) \<times> io_event list" where
  "openai_generate backend api_max_retries = openai_loop backend api_max_retries 1 None []"

text \<open>
  \<open>ClaudeProvider.generate\<close>. Its last clause takes \<open>anthropic.APIStatusError\<close>, which
  always has a status code; an API error without one is taken by no clause.
\<close>

function claude_loop ::
  "backend \<Rightarrow> int \<Rightarrow> int \<Rightarrow> backend_error option \<Rightarrow> io_event list
     \<Rightarrow> (generate_error + pystr) \<times> io_event list" where
  "claude_loop backend api_max_retries attempt last_exception events =
     (if attempt > api_max_retries then
        (case last_exception of
           None \<Rightarrow> (Inl RaisedNone, events)
         | Some e \<Rightarrow> (Inl (Raised e), events))
      else
        case backend attempt of
          Inr content \<Rightarrow>
            (Inr (strip (case content of None \<Rightarrow> [] | Some c \<Rightarrow> c)), events @ [Call attempt])
        | Inl RateLimitError \<Rightarrow>
            claude_loop backend api_max_retries (attempt + 1) (Some RateLimitError)
              (events @ [Call attempt, Sleep (2 ^ nat attempt)])
        | Inl APITimeoutError \<Rightarrow>
            claude_loop backend api_max_retries (attempt + 1) (Some APITimeoutError)
              (events @ [Call attempt, Sleep (2 ^ nat attempt)])
        | Inl APIConnectionError \<Rightarrow>
            claude_loop backend api_max_retries (attempt + 1) (Some APIConnectionError)
              (events @ [Call attempt, Sleep (2 ^ nat attempt)])
        | Inl (APIError status_code) \<Rightarrow>
            (case status_code of
               Some code \<Rightarrow>
                 if code \<ge> 500 then
                   claude_loop backend api_max_retries (attempt + 1) (Some (APIError status_code))
                     (events @ [Call attempt, Sleep (2 ^ nat attempt)])
                 else (Inl (Raised (APIError status_code)), events @ [Call attempt])
             | None \<Rightarrow> (Inl (Raised (APIError status_code)), events @ [Call attempt]))
        | Inl OtherError \<Rightarrow> (Inl (Raised OtherError), events @ [Call attempt]))"
  by pat_completeness auto
termination
  by (relation "measure (\<lambda>(backend, api_max_retries, attempt, last_exception, events).
        nat (api_max_retries + 1 - attempt))") auto

definition claude_generate :: "backend \<Rightarrow> int \<Rightarrow> (generate_error + pystr) \<times> io_event list" where
  "claude_generate backend api_max_retries = claude_loop backend api_max_retries 1 None []"

section \<open>processor.py: the orchestrator\<close>

text \<open>
  An entry of \<open>ProcessingResult.failures\<close>, by the message the source formats: the
  relative path, then "YAML parse error" with the exception, "Empty YAML file", "API
  error" with the exception, "Validation failed Nx" with \<open>max_retries\<close>, or "Write
  error" with the exception.
\<close>

datatype failure =
    YamlParseError pystr pystr
  | EmptyYamlFile pystr
  | ApiError pystr pystr
  | ValidationFailed pystr int
  | WriteError pystr pystr

record ProcessingResult =
  total_docs :: int
  processed :: int
  skipped :: int
  failed :: int
  failures :: "failure list"

text \<open>
  What the outside answers while one rule file is processed: the relative path, what
  \<open>yaml.load\<close> gives for the file (an exception, \<open>None\<close> for an empty file, or the
  mapping a rule is; an exception of the outside is held as its text), the mirrored output file as \<open>should_skip\<close> finds it, what reading the raw
  text gives, what \<open>provider.generate(prompt_text, rule_text)\<close> gives at each attempt,
  whether making the output's directory and writing the output raise, and the clock.
\<close>

record rule_env =
  relative_str :: pystr
  yaml_load :: "pystr + doc option"
  out_file :: output_file
  read_text :: "pystr + pystr"
  generate :: "pystr \<Rightarrow> pystr \<Rightarrow> int \<Rightarrow> pystr + pystr"
  mkdir_parent :: "pystr option"
  write_output :: "pystr option"
  clock :: pystr

text \<open>The calls of the cache's methods, in order.\<close>

datatype cache_op = OpLoad | OpShouldSkip pystr | OpUpdateRule pystr | OpSetPromptHash | OpSave

text \<open>
  The state the tasks of one run share: the cache, the result, the documents written
  (relative path and content) and the cache's calls.
\<close>

record run_state =
  cache :: cache_data
  result :: ProcessingResult
  written :: "(pystr \<times> doc) list"
  cache_ops :: "cache_op list"

text \<open>\<open>result.failed += 1; result.failures.append(msg)\<close>.\<close>

definition record_failure :: "failure \<Rightarrow> run_state \<Rightarrow> run_state" where
  "record_failure msg st =
     st\<lparr>result := (result st)\<lparr>failed := failed (result st) + 1,
                                failures := failures (result st) @ [msg]\<rparr>\<rparr>"

text \<open>
  The validation retry loop, \<open>for attempt in range(1, max_retries + 1)\<close>, from
  \<open>attempt\<close> on, and what follows it: the accepted response, the return after an API
  error at the last attempt, or \<open>response is None\<close> after the loop.
\<close>

datatype loop_outcome = Accepted pystr | ApiFailed pystr | NoResponse

function retry_loop :: "(int \<Rightarrow> pystr + pystr) \<Rightarrow> int \<Rightarrow> int \<Rightarrow> loop_outcome" where
  "retry_loop gen max_retries attempt =
     (if attempt > max_retries then NoResponse
      else
        case gen attempt of
          Inl e \<Rightarrow>
            if attempt = max_retries then ApiFailed e
            else retry_loop gen max_retries (attempt + 1)
        | Inr raw_response \<Rightarrow>
            if passed (validate_response raw_response) then Accepted raw_response
            else retry_loop gen max_retries (attempt + 1))"
  by pat_completeness auto
termination
  by (relation "measure (\<lambda>(gen, max_retries, attempt). nat (max_retries + 1 - attempt))") auto

text \<open>
  \<open>_process_single_rule\<close>: the state after it, and the exception when it raises one
  (reading the raw text and making the output's directory are outside every \<open>try\<close>).
\<close>

definition process_single_rule ::
  "lib \<Rightarrow> rule_env \<Rightarrow> pystr \<Rightarrow> pystr \<Rightarrow> int \<Rightarrow> bool \<Rightarrow> run_state \<Rightarrow> py_error option \<times> run_state" where
  "process_single_rule L env prompt_text prompt_hash' max_retries force st =
     (case yaml_load env of
        Inl e \<Rightarrow> (None, record_failure (YamlParseError (relative_str env) e) st)
      | Inr None \<Rightarrow> (None, record_failure (EmptyYamlFile (relative_str env)) st)
      | Inr (Some rule_data) \<Rightarrow>
          let content_hash = compute_rule_hash L rule_data;
              st1 = (if \<not> force
                     then st\<lparr>cache_ops := cache_ops st @ [OpShouldSkip (relative_str env)]\<rparr>
                     else st)
          in
          if \<not> force \<and>
             should_skip (cache st) (relative_str env) content_hash prompt_hash' (out_file env)
          then (None, st1\<lparr>result := (result st1)\<lparr>skipped := skipped (result st1) + 1\<rparr>\<rparr>)
          else
            (case read_text env of
              Inl e \<Rightarrow> (Some (PyException e), st1)
            | Inr rule_text \<Rightarrow>
                (case retry_loop (generate env prompt_text rule_text) max_retries 1 of
                   ApiFailed e \<Rightarrow> (None, record_failure (ApiError (relative_str env) e) st1)
                 | NoResponse \<Rightarrow>
                     (None, record_failure (ValidationFailed (relative_str env) max_retries) st1)
                 | Accepted response \<Rightarrow>
                     let cleaned = final_note (DISCLAIMER_TEXT L) response;
                         rule_data1 = dict_set (lit ''note'') (PStr cleaned) rule_data
                     in
                     (case mkdir_parent env of
                        Some e \<Rightarrow> (Some (PyException e), st1)
                      | None \<Rightarrow>
                          (case write_output env of
                             Some e \<Rightarrow> (None, record_failure (WriteError (relative_str env) e) st1)
                           | None \<Rightarrow>
                               (None,
                                st1\<lparr>written := written st1 @ [(relative_str env, rule_data1)],
                                    cache := update_rule (clock env) (relative_str env)
                                               content_hash (cache st1),
                                    cache_ops := cache_ops st1 @ [OpUpdateRule (relative_str env)],
                                    result := (result st1)\<lparr>processed :=
                                                processed (result st1) + 1\<rparr>\<rparr>))))))"

text \<open>
  The tasks of \<open>process_rules\<close>, one per file. A task gives way to another only inside
  \<open>provider.generate\<close>, and what it does to the shared cache and result it does without
  giving way, so the tasks are run here one after the other, in the order of the list;
  an exception of a task is the exception of \<open>asyncio.gather\<close>.
\<close>

fun process_all ::
  "lib \<Rightarrow> pystr \<Rightarrow> pystr \<Rightarrow> int \<Rightarrow> bool \<Rightarrow> rule_env list \<Rightarrow> run_state \<Rightarrow> py_error option \<times> run_state" where
  "process_all L prompt_text prompt_hash' max_retries force [] st = (None, st)"
| "process_all L prompt_text prompt_hash' max_retries force (env # envs) st =
     (case process_single_rule L env prompt_text prompt_hash' max_retries force st of
        (Some e, st1) \<Rightarrow> (Some e, st1)
      | (None, st1) \<Rightarrow> process_all L prompt_text prompt_hash' max_retries force envs st1)"

text \<open>
  What the outside answers to one run: what reading the prompt gives, whether making
  the output directory raises, the cache file, the rule files \<open>_collect_yaml_files\<close>
  finds, and how \<open>save\<close> fares.
\<close>

record run_env =
  read_prompt :: "pystr + pystr"
  mkdir_output :: "pystr option"
  cache_file_before :: cache_file
  yaml_files :: "rule_env list"
  save_fault_of :: "save_fault option"

text \<open>What a run leaves: the cache file and the calls of the cache's methods.\<close>

record run_trace =
  cache_file_after :: cache_file
  ops :: "cache_op list"

definition process_rules ::
  "lib \<Rightarrow> run_env \<Rightarrow> int \<Rightarrow> bool \<Rightarrow> (py_error + ProcessingResult) \<times> run_trace" where
  "process_rules L env max_retries force =
     (let result0 = \<lparr>total_docs = 0, processed = 0, skipped = 0, failed = 0, failures = []\<rparr>;
          file = cache_file_before env
      in
      case read_prompt env of
        Inl e \<Rightarrow> (Inl (PyException e), \<lparr>cache_file_after = file, ops = []\<rparr>)
      | Inr prompt_text \<Rightarrow>
          let prompt_hash' = compute_prompt_hash L prompt_text in
          (case mkdir_output env of
             Some e \<Rightarrow> (Inl (PyException e), \<lparr>cache_file_after = file, ops = []\<rparr>)
           | None \<Rightarrow>
               (case Cache_init file of
                  Inl e \<Rightarrow> (Inl e, \<lparr>cache_file_after = file, ops = [OpLoad]\<rparr>)
                | Inr cache0 \<Rightarrow>
                    let result1 = result0\<lparr>total_docs := int (length (yaml_files env))\<rparr> in
                    if total_docs result1 = 0
                    then (Inl (SystemExit 1), \<lparr>cache_file_after = file, ops = [OpLoad]\<rparr>)
                    else
                      (case process_all L prompt_text prompt_hash' max_retries force (yaml_files env)
                              \<lparr>cache = cache0, result = result1, written = [], cache_ops = [OpLoad]\<rparr> of
                         (Some e, st) \<Rightarrow> (Inl e, \<lparr>cache_file_after = file, ops = cache_ops st\<rparr>)
                       | (None, st) \<Rightarrow>
                           let cache1 = set_prompt_hash prompt_hash' (cache st)
                           in (Inr (result st),
                               \<lparr>cache_file_after = save (save_fault_of env) cache1 file,
                                ops = cache_ops st @ [OpSetPromptHash, OpSave]\<rparr>)))))"

section \<open>The specification's words\<close>

text \<open>
  Condition (b) of \<open>shouldSkip\<close>: an entry exists for the path whose stored content hash
  is the given one.
\<close>

definition entry_matches :: "cache_data \<Rightarrow> pystr \<Rightarrow> pystr \<Rightarrow> bool" where
  "entry_matches data relative_path content_hash =
     (case rules_or_empty data relative_path of
        None \<Rightarrow> False
      | Some entry \<Rightarrow> map_of entry (lit ''content_hash'') = Some content_hash)"

text \<open>
  Condition (c) of \<open>shouldSkip\<close>: the output document exists and its \<open>note\<close> field is
  present and non-blank after trimming. A note that is a text is non-blank when
  something is left of it after trimming; a note that is no text is counted blank when
  it is empty (null, false, zero, an empty sequence or mapping).
\<close>

fun non_blank_note :: "pyval \<Rightarrow> bool" where
  "non_blank_note (PStr s) = (strip s \<noteq> [])"
| "non_blank_note PNone = False"
| "non_blank_note (PBool b) = b"
| "non_blank_note (PInt n) = (n \<noteq> 0)"
| "non_blank_note (PSeq xs) = (xs \<noteq> [])"
| "non_blank_note (PMap m) = (m \<noteq> [])"

definition output_has_note :: "output_file \<Rightarrow> bool" where
  "output_has_note out =
     (case out of
        Loaded (PMap m) \<Rightarrow>
          (case map_of m (lit ''note'') of None \<Rightarrow> False | Some v \<Rightarrow> non_blank_note v)
      | _ \<Rightarrow> False)"

text \<open>Lines without a line boundary in them, and lines without trailing whitespace.\<close>

definition no_lb :: "pystr \<Rightarrow> bool" where
  "no_lb l \<longleftrightarrow> (\<forall>c\<in>set l. \<not> is_linebreak c)"

definition rstripped :: "pystr \<Rightarrow> bool" where
  "rstripped l \<longleftrightarrow> (l = [] \<or> \<not> is_space (last l))"

text \<open>No two empty lines in a row.\<close>

fun no_double_blank :: "pystr list \<Rightarrow> bool" where
  "no_double_blank [] = True"
| "no_double_blank [x] = True"
| "no_double_blank (x # y # ys) = (\<not> (x = [] \<and> y = []) \<and> no_double_blank (y # ys))"

text \<open>
  The lines \<open>_clean_markdown\<close> puts out: no boundary inside a line, no trailing
  whitespace, no two empty lines in a row, and neither the first line nor the last is
  empty, the first starting with a character that is no whitespace.
\<close>

definition tidy :: "pystr list \<Rightarrow> bool" where
  "tidy out \<longleftrightarrow>
     (\<forall>l\<in>set out. no_lb l \<and> rstripped l) \<and> no_double_blank out
     \<and> (out \<noteq> [] \<longrightarrow> hd out \<noteq> [] \<and> \<not> is_space (hd (hd out)) \<and> last out \<noteq> [])"

text \<open>
  Whether the \<open>note\<close> a document carries is a text that holds the disclaimer marker.
\<close>

definition note_has_marker :: "doc \<Rightarrow> bool" where
  "note_has_marker d =
     (case map_of d (lit ''note'') of
        Some (PStr s) \<Rightarrow> py_in DISCLAIMER_PREFIX s
      | _ \<Rightarrow> False)"

section \<open>Sample texts\<close>

text \<open>
  A guide with the four sections and no disclaimer, a disclaimer line, and the guide
  followed by the disclaimer line.
\<close>

definition guide_body :: pystr where
  "guide_body = lit
     ''### Technical Context\<newline>Detects credential dumping tools.\<newline>\<newline>### Investigation Steps\<newline>- **Review lineage**: check the parent process.\<newline>- Check logon events.\<newline>\<newline>### Prioritization\<newline>Treat as high severity.\<newline>\<newline>### Blind Spots and Assumptions\<newline>Assumes process logging is enabled.\<newline>''"

definition disclaimer_line :: pystr where
  "disclaimer_line = lit ''> **Disclaimer:** AI generated.''"

definition valid_guide :: pystr where
  "valid_guide = guide_body @ [10] @ disclaimer_line @ [10]"

section \<open>A sample run\<close>

text \<open>
  Library functions, a rule file whose generation gives \<open>valid_guide\<close> at every attempt
  and whose output can be written, and the state of a run that has just loaded an
  empty cache for one file.
\<close>

definition sample_lib :: lib where
  "sample_lib = \<lparr>sha256 = rev, yaml_dump = (\<lambda>d. concat (map fst d)),
                  DISCLAIMER_TEXT = disclaimer_line\<rparr>"

definition sample_rule :: rule_env where
  "sample_rule =
     \<lparr>relative_str = lit ''r.yml'',
      yaml_load = Inr (Some [(lit ''title'', PStr (lit ''T''))]),
      out_file = Missing,
      read_text = Inr (lit ''title: T''),
      generate = (\<lambda>prompt rule_text attempt. Inr valid_guide),
      mkdir_parent = None,
      write_output = None,
      clock = lit ''2026-11-03T00:00:00+00:00''\<rparr>"

definition sample_state :: run_state where
  "sample_state =
     \<lparr>cache = fresh_data,
      result = \<lparr>total_docs = 1, processed = 0, skipped = 0, failed = 0, failures = []\<rparr>,
      written = [],
      cache_ops = [OpLoad]\<rparr>"

section \<open>The specification's words: the generation client\<close>

text \<open>
  The transient failures: rate limiting, timeout, connection failure, and an API error
  with a server-side (5xx) status.
\<close>

fun transient :: "backend_error \<Rightarrow> bool" where
  "transient RateLimitError = True"
| "transient APITimeoutError = True"
| "transient APIConnectionError = True"
| "transient (APIError (Some code)) = (code \<ge> 500)"
| "transient (APIError None) = False"
| "transient OtherError = False"

text \<open>The attempts \<open>a\<close> to \<open>b\<close> all fail with a transient failure.\<close>

definition all_transient :: "backend \<Rightarrow> int \<Rightarrow> int \<Rightarrow> bool" where
  "all_transient backend a b =
     list_all (\<lambda>k. case backend k of Inl e \<Rightarrow> transient e | Inr content \<Rightarrow> False) [a..b]"

text \<open>
  The events of the failed attempts \<open>a\<close> to \<open>b\<close>: each call is followed by a sleep of
  \<open>2 ^ attempt\<close> seconds.
\<close>

definition backoff_events :: "int \<Rightarrow> int \<Rightarrow> io_event list" where
  "backoff_events a b = concat (map (\<lambda>k. [Call k, Sleep (2 ^ nat k)]) [a..b])"

text \<open>\<open>content.strip()\<close>, with the empty text for a response without content.\<close>

definition returned_text :: "pystr option \<Rightarrow> pystr" where
  "returned_text content = strip (case content of None \<Rightarrow> [] | Some c \<Rightarrow> c)"

text \<open>
  A backend that is rate limited at the first call, fails with status 503 at the
  second, with status 404 at the third, and answers from the fourth on.
\<close>

definition sample_backend :: backend where
  "sample_backend k =
     (if k = 1 then Inl RateLimitError
      else if k = 2 then Inl (APIError (Some 503))
      else if k = 3 then Inl (APIError (Some 404))
      else Inr (Some (lit '' ok '')))"

section \<open>The specification's words: the orchestrator\<close>


text \<open>
  From one result to the next, exactly one of the counters \<open>processed\<close>, \<open>skipped\<close> and
  \<open>failed\<close> went up by one, and the list of failures grew by one entry exactly when
  \<open>failed\<close> went up.
\<close>

definition one_counter_up :: "ProcessingResult \<Rightarrow> ProcessingResult \<Rightarrow> bool" where
  "one_counter_up r r' \<longleftrightarrow>
     total_docs r' = total_docs r
     \<and> ((processed r' = processed r + 1 \<and> skipped r' = skipped r \<and> failed r' = failed r
          \<and> failures r' = failures r)
        \<or> (processed r' = processed r \<and> skipped r' = skipped r + 1 \<and> failed r' = failed r
          \<and> failures r' = failures r)
        \<or> (processed r' = processed r \<and> skipped r' = skipped r \<and> failed r' = failed r + 1
          \<and> length (failures r') = length (failures r) + 1))"

text \<open>The documents a result has counted.\<close>

definition counted :: "ProcessingResult \<Rightarrow> int" where
  "counted r = processed r + skipped r + failed r"

text \<open>
  A run over three rule files with the sample library: \<open>old.yml\<close> is unchanged since
  the run that wrote the cache file (its entry, the prompt hash and its output with a
  note are there), \<open>r.yml\<close> is new and its generation gives \<open>valid_guide\<close>, and the
  generation for \<open>bad.yml\<close> raises at every attempt. And the same run with no rule file
  found.
\<close>

definition old_rule :: rule_env where
  "old_rule = sample_rule\<lparr>relative_str := lit ''old.yml'',
                out_file := Loaded (PMap [(lit ''title'', PStr (lit ''T'')),
                                          (lit ''note'', PStr valid_guide)])\<rparr>"

definition bad_rule :: rule_env where
  "bad_rule = sample_rule\<lparr>relative_str := lit ''bad.yml'',
                generate := (\<lambda>prompt rule_text attempt. Inl (lit ''401 Unauthorized''))\<rparr>"

definition sample_cache :: cache_data where
  "sample_cache = \<lparr>version = Some 1, prompt_hash = Some (lit ''tpmorp''),
                    rules = Some [lit ''old.yml'' \<mapsto> [(lit ''content_hash'', lit ''eltit'')]]\<rparr>"

definition sample_run :: run_env where
  "sample_run =
     \<lparr>read_prompt = Inr (lit ''prompt''),
      mkdir_output = None,
      cache_file_before = JsonObject sample_cache,
      yaml_files = [old_rule, sample_rule, bad_rule],
      save_fault_of = None\<rparr>"

definition empty_run :: run_env where
  "empty_run = sample_run\<lparr>yaml_files := []\<rparr>"

section \<open>Lemmas: the loops\<close>

text \<open>
  The loops are unfolded by hand: their equations call themselves under a \<open>case\<close>,
  where the simplifier would not stop.
\<close>

declare retry_loop.simps [simp del]
declare openai_loop.simps [simp del]
declare claude_loop.simps [simp del]

section \<open>Lemmas: text\<close>

lemma linebreak_is_space: "is_linebreak c \<Longrightarrow> is_space c"
  by (auto simp: is_linebreak_def is_space_def)

lemma rstrip_rstripped: "rstripped (rstrip l)"
  unfolding rstripped_def rstrip_def
  by (metis hd_dropWhile last_rev rev_is_Nil_conv)

lemma rstrip_id: "rstripped l \<Longrightarrow> rstrip l = l"
  unfolding rstripped_def rstrip_def
  by (cases l rule: rev_cases) auto

lemma set_rstrip: "set (rstrip l) \<subseteq> set l"
  unfolding rstrip_def using set_dropWhileD by fastforce

lemma rstrip_eq_Nil: "rstrip l = [] \<longleftrightarrow> (\<forall>c\<in>set l. is_space c)"
  unfolding rstrip_def by auto

lemma rstrip_snoc: "\<not> is_space c \<Longrightarrow> rstrip (l @ [c]) = l @ [c]"
  unfolding rstrip_def by simp

lemma lstrip_Cons: "\<not> is_space c \<Longrightarrow> lstrip (c # l) = c # l"
  unfolding lstrip_def by simp

lemma splitlines_from_line:
  "no_lb l \<Longrightarrow> splitlines_from cur (l @ 10 # rest) = (cur @ l) # splitlines_from [] rest"
proof (induction l arbitrary: cur)
  case Nil
  then show ?case by (cases rest) (auto simp: is_linebreak_def)
next
  case (Cons c l)
  then have c: "\<not> is_linebreak c" and l: "no_lb l" by (auto simp: no_lb_def)
  from c have "c \<noteq> 13" by (auto simp: is_linebreak_def)
  with c Cons.IH[OF l, of "cur @ [c]"] show ?case
    by (cases l) auto
qed

lemma splitlines_from_last:
  "no_lb l \<Longrightarrow> splitlines_from cur l = (if cur @ l = [] then [] else [cur @ l])"
proof (induction l arbitrary: cur)
  case Nil
  then show ?case by simp
next
  case (Cons c l)
  then have c: "\<not> is_linebreak c" and l: "no_lb l" by (auto simp: no_lb_def)
  from c have "c \<noteq> 13" by (auto simp: is_linebreak_def)
  with c Cons.IH[OF l, of "cur @ [c]"] show ?case
    by (cases l) auto
qed

lemma splitlines_join:
  "\<forall>l\<in>set out. no_lb l \<Longrightarrow> out \<noteq> [] \<longrightarrow> last out \<noteq> [] \<Longrightarrow> splitlines (join_nl out) = out"
proof (induction out rule: join_nl.induct)
  case 1
  then show ?case by (simp add: splitlines_def)
next
  case (2 x)
  then show ?case by (simp add: splitlines_def splitlines_from_last)
next
  case (3 x y ys)
  then show ?case
    using splitlines_from_line[of x "[]" "join_nl (y # ys)"]
    by (simp add: splitlines_def)
qed


lemma splitlines_join_newline:
  "\<forall>l\<in>set out. no_lb l \<Longrightarrow> out \<noteq> [] \<Longrightarrow> splitlines (join_nl out @ [10]) = out"
proof (induction out rule: join_nl.induct)
  case 1
  then show ?case by simp
next
  case (2 x)
  then show ?case
    using splitlines_from_line[of x "[]" "[]"] by (simp add: splitlines_def)
next
  case (3 x y ys)
  then show ?case
    using splitlines_from_line[of x "[]" "join_nl (y # ys) @ [10]"]
    by (simp add: splitlines_def)
qed

lemma splitlines_from_no_lb:
  "no_lb cur \<Longrightarrow> l \<in> set (splitlines_from cur s) \<Longrightarrow> no_lb l"
proof (induction cur s arbitrary: l rule: splitlines_from.induct)
  case (1 cur)
  then show ?case by (auto split: if_splits)
next
  case (2 cur c cs)
  have e: "no_lb []" by (simp add: no_lb_def)
  show ?case
  proof (cases cs)
    case Nil
    with 2 show ?thesis by (auto simp: no_lb_def split: if_splits)
  next
    case (Cons d ds)
    show ?thesis
    proof (cases "c = 13 \<and> d = 10")
      case True
      with 2 Cons e show ?thesis by auto
    next
      case False
      note nf = False
      show ?thesis
      proof (cases "is_linebreak c")
        case True
        with 2 Cons nf e show ?thesis by auto
      next
        case False
        then have "no_lb (cur @ [c])" using 2(4) by (auto simp: no_lb_def)
        with 2 Cons nf False show ?thesis by auto
      qed
    qed
  qed
qed

lemma splitlines_from_hd:
  "cur \<noteq> [] \<Longrightarrow> splitlines_from cur s \<noteq> [] \<and> hd (splitlines_from cur s) \<noteq> []
     \<and> hd (hd (splitlines_from cur s)) = hd cur"
proof (induction cur s rule: splitlines_from.induct)
  case (1 cur)
  then show ?case by simp
next
  case (2 cur c cs)
  then show ?case by (cases cs) (auto split: if_splits)
qed

lemma splitlines_from_last_line:
  "s \<noteq> [] \<Longrightarrow> \<not> is_linebreak (last s) \<Longrightarrow>
     splitlines_from cur s \<noteq> [] \<and> last (splitlines_from cur s) \<noteq> []
     \<and> last (last (splitlines_from cur s)) = last s"
proof (induction cur s rule: splitlines_from.induct)
  case (1 cur)
  then show ?case by simp
next
  case (2 cur c cs)
  show ?case
  proof (cases cs)
    case Nil
    with 2 show ?thesis by auto
  next
    case (Cons d ds)
    show ?thesis
    proof (cases "c = 13 \<and> d = 10")
      case True
      with 2(4,5) Cons have "ds \<noteq> []" by (auto simp: is_linebreak_def)
      with 2 Cons True show ?thesis by auto
    next
      case False
      with 2 Cons show ?thesis by (cases "is_linebreak c") auto
    qed
  qed
qed


lemma lstrip_cases: "lstrip s = [] \<or> \<not> is_space (hd (lstrip s))"
  unfolding lstrip_def by (metis hd_dropWhile)

lemma rstrip_keeps_hd:
  assumes "s \<noteq> []" "\<not> is_space (hd s)"
  shows "rstrip s \<noteq> [] \<and> hd (rstrip s) = hd s"
proof -
  from assms obtain c cs where s: "s = c # cs" and c: "\<not> is_space c" by (cases s) auto
  have "\<exists>pre. rstrip (c # cs) = c # pre"
  proof (induction cs rule: rev_induct)
    case Nil
    show ?case using c by (simp add: rstrip_def)
  next
    case (snoc x xs)
    then obtain pre where pre: "rstrip (c # xs) = c # pre" by blast
    show ?case
    proof (cases "is_space x")
      case True
      then have "rstrip (c # xs @ [x]) = rstrip (c # xs)" by (simp add: rstrip_def)
      with pre show ?thesis by simp
    next
      case False
      then have "rstrip ((c # xs) @ [x]) = (c # xs) @ [x]" by (rule rstrip_snoc)
      then show ?thesis by simp
    qed
  qed
  with s show ?thesis by auto
qed

lemma strip_cases:
  "strip t = [] \<or> (\<not> is_space (hd (strip t)) \<and> \<not> is_space (last (strip t)))"
proof (cases "lstrip t = []")
  case True
  then show ?thesis by (simp add: strip_def rstrip_def)
next
  case False
  with lstrip_cases[of t] have h: "\<not> is_space (hd (lstrip t))" by simp
  from rstrip_keeps_hd[OF False h] have "strip t \<noteq> []" "hd (strip t) = hd (lstrip t)"
    by (simp_all add: strip_def)
  moreover have "rstripped (strip t)" unfolding strip_def by (rule rstrip_rstripped)
  ultimately show ?thesis using h by (simp add: rstripped_def)
qed

lemma clean_loop_acc: "clean_loop acc pb lines = acc @ clean_loop [] pb lines"
proof (induction lines arbitrary: acc pb)
  case Nil
  then show ?case by simp
next
  case (Cons l ls)
  show ?case
    using Cons.IH[of "acc @ [[]]" True] Cons.IH[of acc True] Cons.IH[of "acc @ [rstrip l]" False]
      Cons.IH[of "[[]]" True] Cons.IH[of "[rstrip l]" False]
    by (simp add: Let_def)
qed

lemma clean_loop_Cons:
  "clean_loop [] pb (l # ls) =
     (if rstrip l = [] then (if \<not> pb then [] # clean_loop [] True ls else clean_loop [] True ls)
      else rstrip l # clean_loop [] False ls)"
  using clean_loop_acc[of "[[]]" True ls] clean_loop_acc[of "[rstrip l]" False ls]
  by (simp add: Let_def)

declare clean_loop.simps(2) [simp del]

lemma clean_loop_shape:
  "no_double_blank (clean_loop [] pb lines)
   \<and> (pb \<longrightarrow> clean_loop [] pb lines = [] \<or> hd (clean_loop [] pb lines) \<noteq> [])"
proof (induction lines arbitrary: pb)
  case Nil
  then show ?case by simp
next
  case (Cons l ls)
  show ?case
  proof (cases "rstrip l = []")
    case True
    with Cons.IH[of True] show ?thesis
      by (cases "clean_loop [] True ls") (auto simp: clean_loop_Cons)
  next
    case False
    with Cons.IH[of False] show ?thesis
      by (cases "clean_loop [] False ls") (auto simp: clean_loop_Cons)
  qed
qed

lemma clean_loop_elems:
  "x \<in> set (clean_loop [] pb lines) \<Longrightarrow> x = [] \<or> (\<exists>l\<in>set lines. x = rstrip l)"
  by (induction lines arbitrary: pb) (auto simp: clean_loop_Cons split: if_splits)

lemma clean_loop_hd:
  "rstrip l \<noteq> [] \<Longrightarrow> hd (clean_loop [] pb (l # ls)) = rstrip l"
  by (simp add: clean_loop_Cons)

lemma clean_loop_last:
  "lines \<noteq> [] \<Longrightarrow> rstrip (last lines) \<noteq> [] \<Longrightarrow>
     clean_loop [] pb lines \<noteq> [] \<and> last (clean_loop [] pb lines) = rstrip (last lines)"
proof (induction lines arbitrary: pb)
  case Nil
  then show ?case by simp
next
  case (Cons l ls)
  show ?case
  proof (cases ls)
    case Nil
    with Cons.prems show ?thesis by (simp add: clean_loop_Cons)
  next
    case (Cons a as)
    with Cons.prems Cons.IH[of True] Cons.IH[of False] show ?thesis
      by (auto simp: clean_loop_Cons)
  qed
qed

lemma clean_loop_fixed:
  "\<forall>l\<in>set out. rstripped l \<Longrightarrow> no_double_blank out \<Longrightarrow> (pb \<longrightarrow> out = [] \<or> hd out \<noteq> []) \<Longrightarrow>
     clean_loop [] pb out = out"
proof (induction out arbitrary: pb)
  case Nil
  then show ?case by simp
next
  case (Cons l ls)
  have r: "rstrip l = l" using Cons.prems(1) by (simp add: rstrip_id)
  have ndb: "no_double_blank ls" using Cons.prems(2) by (cases ls) auto
  show ?case
  proof (cases "l = []")
    case True
    with Cons.prems(3) have pb: "\<not> pb" by simp
    have "ls = [] \<or> hd ls \<noteq> []" using Cons.prems(2) True by (cases ls) auto
    with Cons.IH[of True] Cons.prems(1) ndb have "clean_loop [] True ls = ls" by simp
    with True pb r show ?thesis by (simp add: clean_loop_Cons)
  next
    case False
    from Cons.IH[of False] Cons.prems(1) ndb have "clean_loop [] False ls = ls" by simp
    with False r show ?thesis by (simp add: clean_loop_Cons)
  qed
qed


lemma join_nl_hd: "out \<noteq> [] \<Longrightarrow> hd out \<noteq> [] \<Longrightarrow> join_nl out \<noteq> [] \<and> hd (join_nl out) = hd (hd out)"
  by (induction out rule: join_nl.induct) auto

lemma join_nl_last:
  "out \<noteq> [] \<Longrightarrow> last out \<noteq> [] \<Longrightarrow> join_nl out \<noteq> [] \<and> last (join_nl out) = last (last out)"
  by (induction out rule: join_nl.induct) auto

lemma endswith_nl: "endswith [10] s \<longleftrightarrow> s \<noteq> [] \<and> last s = 10"
  by (cases s rule: rev_cases) (auto simp: endswith_def)

lemma strip_with_newline:
  assumes "s \<noteq> []" "\<not> is_space (hd s)" "\<not> is_space (last s)"
  shows "strip (s @ [10]) = s"
proof -
  have "lstrip (s @ [10]) = s @ [10]" using assms(1,2) by (cases s) (auto simp: lstrip_def)
  moreover have "rstrip (s @ [10]) = s"
    using assms(1,3) by (cases s rule: rev_cases) (auto simp: rstrip_def is_space_def)
  ultimately show ?thesis by (simp add: strip_def)
qed

lemma tidy_lines:
  "tidy (clean_loop [] True (splitlines (strip t)))"
proof -
  let ?s = "strip t"
  let ?ls = "splitlines ?s"
  let ?out = "clean_loop [] True ?ls"
  have lb: "\<forall>l\<in>set ?ls. no_lb l"
    using splitlines_from_no_lb[of "[]" _ ?s] by (simp add: splitlines_def no_lb_def)
  have elems: "\<forall>x\<in>set ?out. no_lb x \<and> rstripped x"
  proof
    fix x assume "x \<in> set ?out"
    from clean_loop_elems[OF this] show "no_lb x \<and> rstripped x"
    proof
      assume "x = []" then show ?thesis by (simp add: no_lb_def rstripped_def)
    next
      assume "\<exists>l\<in>set ?ls. x = rstrip l"
      then obtain l where l: "l \<in> set ?ls" "x = rstrip l" by blast
      with lb have "no_lb l" by blast
      with set_rstrip[of l] l(2) have "no_lb x" by (auto simp: no_lb_def)
      with l(2) show ?thesis by (simp add: rstrip_rstripped)
    qed
  qed
  have ends: "?out \<noteq> [] \<longrightarrow> hd ?out \<noteq> [] \<and> \<not> is_space (hd (hd ?out)) \<and> last ?out \<noteq> []"
  proof (cases "?s = []")
    case True
    then show ?thesis by (simp add: splitlines_def)
  next
    case False
    with strip_cases[of t] have h: "\<not> is_space (hd ?s)" and l: "\<not> is_space (last ?s)" by auto
    from False obtain c cs where s: "?s = c # cs" by (cases ?s) auto
    with h have c: "\<not> is_space c" by simp
    then have nlb: "\<not> is_linebreak c" using linebreak_is_space by blast
    have first: "?ls \<noteq> [] \<and> hd ?ls \<noteq> [] \<and> hd (hd ?ls) = c"
    proof (cases cs)
      case Nil
      with s nlb show ?thesis by (simp add: splitlines_def)
    next
      case (Cons d ds)
      from nlb have "c \<noteq> 13" by (auto simp: is_linebreak_def)
      with s Cons nlb have "?ls = splitlines_from [c] cs" by (simp add: splitlines_def)
      with splitlines_from_hd[of "[c]" cs] show ?thesis by simp
    qed
    then obtain f fs where ls: "?ls = f # fs" and f: "f \<noteq> []" "hd f = c" by (cases ?ls) auto
    from rstrip_keeps_hd[OF f(1)] f(2) c have rf: "rstrip f \<noteq> []" "hd (rstrip f) = c" by auto
    from clean_loop_hd[OF rf(1), of True fs] ls have hd_out: "hd ?out = rstrip f" by simp
    from l have "\<not> is_linebreak (last ?s)" using linebreak_is_space by blast
    from splitlines_from_last_line[OF False this, of "[]"]
    have last: "?ls \<noteq> []" "last ?ls \<noteq> []" "last (last ?ls) = last ?s" by (simp_all add: splitlines_def)
    with l have "rstripped (last ?ls)" by (simp add: rstripped_def)
    then have "rstrip (last ?ls) = last ?ls" by (rule rstrip_id)
    with last(2) have "rstrip (last ?ls) \<noteq> []" by simp
    from clean_loop_last[OF last(1) this, of True] last(2) \<open>rstrip (last ?ls) = last ?ls\<close>
    have "last ?out \<noteq> []" by simp
    with hd_out rf c show ?thesis by simp
  qed
  from elems clean_loop_shape[of True ?ls] ends show ?thesis by (simp add: tidy_def)
qed

lemma join_nl_no_newline_end: "tidy out \<Longrightarrow> \<not> endswith [10] (join_nl out)"
proof (cases "out = []")
  case True
  then show ?thesis by (simp add: endswith_def)
next
  case False
  assume t: "tidy out"
  with False have "last out \<noteq> []" "rstripped (last out)" by (auto simp: tidy_def)
  then have "\<not> is_space (last (last out))" by (simp add: rstripped_def)
  moreover have "last (join_nl out) = last (last out)"
    using join_nl_last[OF False \<open>last out \<noteq> []\<close>] by simp
  ultimately show ?thesis by (auto simp: endswith_nl is_space_def)
qed

lemma clean_markdown_eq:
  "clean_markdown t = join_nl (clean_loop [] True (splitlines (strip t))) @ [10]"
  using join_nl_no_newline_end[OF tidy_lines[of t]] by (simp add: clean_markdown_def Let_def)

lemma tidy_roundtrip:
  assumes "tidy out"
  shows "clean_loop [] True (splitlines (strip (join_nl out @ [10]))) = out"
proof (cases "out = []")
  case True
  have "strip [10] = []" by (simp add: strip_def lstrip_def rstrip_def is_space_def)
  with True show ?thesis by (simp add: splitlines_def)
next
  case False
  with assms have h: "hd out \<noteq> []" "\<not> is_space (hd (hd out))" "last out \<noteq> []"
    and r: "\<forall>l\<in>set out. rstripped l" and lb: "\<forall>l\<in>set out. no_lb l" and ndb: "no_double_blank out"
    by (auto simp: tidy_def)
  from r False have "rstripped (last out)" by simp
  with h(3) have l: "\<not> is_space (last (last out))" by (simp add: rstripped_def)
  from join_nl_hd[OF False h(1)] join_nl_last[OF False h(3)] h(2) l
  have "strip (join_nl out @ [10]) = join_nl out" by (intro strip_with_newline) auto
  moreover have "splitlines (join_nl out) = out" using lb h(3) by (intro splitlines_join) auto
  moreover have "clean_loop [] True out = out" using r ndb h(1) by (intro clean_loop_fixed) auto
  ultimately show ?thesis by simp
qed

lemma strip_Nil_rstripped: "rstripped l \<Longrightarrow> strip l = [] \<Longrightarrow> l = []"
proof (rule ccontr)
  assume r: "rstripped l" and s: "strip l = []" and n: "l \<noteq> []"
  from s have "\<forall>c\<in>set (lstrip l). is_space c" by (simp add: strip_def rstrip_eq_Nil)
  with lstrip_cases[of l] have "lstrip l = []" by (cases "lstrip l") auto
  then have "\<forall>c\<in>set l. is_space c" by (simp add: lstrip_def)
  with n have "is_space (last l)" by simp
  with r n show False by (simp add: rstripped_def)
qed

lemma no_double_blank_nth:
  "no_double_blank out \<Longrightarrow> Suc i < length out \<Longrightarrow> \<not> (out ! i = [] \<and> out ! Suc i = [])"
proof (induction out arbitrary: i rule: no_double_blank.induct)
  case 1
  then show ?case by simp
next
  case (2 x)
  then show ?case by simp
next
  case (3 x y ys)
  then show ?case by (cases i) auto
qed

lemma splitlines_clean_markdown:
  "splitlines (clean_markdown t) =
     (if clean_loop [] True (splitlines (strip t)) = [] then [[]]
      else clean_loop [] True (splitlines (strip t)))"
proof (cases "clean_loop [] True (splitlines (strip t)) = []")
  case True
  then show ?thesis by (simp add: clean_markdown_eq splitlines_def is_linebreak_def)
next
  case False
  from tidy_lines[of t] have "\<forall>l\<in>set (clean_loop [] True (splitlines (strip t))). no_lb l"
    by (simp add: tidy_def)
  from splitlines_join_newline[OF this False] False show ?thesis
    by (simp add: clean_markdown_eq)
qed

section \<open>Lemmas: cache and fingerprint\<close>

lemma strip_Nil: "strip [] = []"
  by (simp add: strip_def lstrip_def rstrip_def)

lemma non_blank_note_iff: "non_blank_note v \<longleftrightarrow> py_truthy v \<and> \<not> str_blank v"
  by (cases v) (auto simp: strip_Nil)

lemma get_note_cases:
  "(case get_note out_data of Inl e \<Rightarrow> False | Inr note \<Rightarrow> py_truthy note \<and> \<not> str_blank note)
     = output_has_note (Loaded out_data)"
  by (cases out_data)
     (auto simp: get_note_def output_has_note_def non_blank_note_iff strip_Nil split: option.splits)

lemma dict_del_absent: "\<not> dict_has k d \<Longrightarrow> dict_del k d = d"
  by (induction d) (auto simp: dict_has_def dict_del_def)



lemma compute_rule_hash_eq:
  "compute_rule_hash L d = sha256 L (yaml_dump L (dict_del (lit ''note'') d))"
  by (simp add: compute_rule_hash_def Let_def dict_del_absent)

lemma Cache_init_version: "Cache_init file = Inr c \<Longrightarrow> version c = Some CACHE_VERSION"
  by (auto simp: Cache_init_def load_def fresh_data_def split: cache_file.splits if_splits)

section \<open>Lemmas: the orchestrator\<close>

lemma startswith_iff: "startswith p s \<longleftrightarrow> (\<exists>q. s = p @ q)"
  by (induction p s rule: startswith.induct) auto

lemma py_in_iff: "py_in sub s \<longleftrightarrow> (\<exists>p q. s = p @ sub @ q)"
proof (induction s)
  case Nil
  then show ?case by auto
next
  case (Cons c cs)
  show ?case
  proof
    assume "py_in sub (c # cs)"
    then consider "startswith sub (c # cs)" | "py_in sub cs" by auto
    then show "\<exists>p q. c # cs = p @ sub @ q"
    proof cases
      case 1
      then obtain q where "c # cs = sub @ q" by (auto simp: startswith_iff)
      then have "c # cs = [] @ sub @ q" by simp
      then show ?thesis by blast
    next
      case 2
      with Cons obtain p q where "cs = p @ sub @ q" by blast
      then have "c # cs = (c # p) @ sub @ q" by simp
      then show ?thesis by blast
    qed
  next
    assume "\<exists>p q. c # cs = p @ sub @ q"
    then obtain p q where e: "c # cs = p @ sub @ q" by blast
    show "py_in sub (c # cs)"
    proof (cases p)
      case Nil
      with e have "startswith sub (c # cs)" by (auto simp: startswith_iff)
      then show ?thesis by simp
    next
      case (Cons a p')
      with e have "cs = p' @ sub @ q" by simp
      with Cons.IH have "py_in sub cs" by blast
      then show ?thesis by simp
    qed
  qed
qed

lemma py_in_middle: "py_in sub (p @ sub @ q)"
  by (auto simp: py_in_iff)

lemma py_in_trans: "py_in a b \<Longrightarrow> py_in b c \<Longrightarrow> py_in a c"
proof -
  assume "py_in a b" "py_in b c"
  then obtain p q p' q' where "b = p @ a @ q" "c = p' @ b @ q'" by (auto simp: py_in_iff)
  then have "c = (p' @ p) @ a @ (q @ q')" by simp
  then show ?thesis unfolding py_in_iff by blast
qed

lemma map_of_dict_set: "map_of (dict_set k v d) k = Some v"
  by (induction d) auto

lemma final_note_holds_text: "py_in dt (final_note dt response)"
  using py_in_middle[of dt "rstrip_nl (clean_markdown response) @ [10, 10]" "[10]"]
  by (simp add: final_note_def Let_def)

lemma note_has_marker_set:
  "py_in DISCLAIMER_PREFIX s \<Longrightarrow> note_has_marker (dict_set (lit ''note'') (PStr s) d)"
  by (simp add: note_has_marker_def map_of_dict_set)

lemma retry_loop_accepted:
  "retry_loop gen mr a = Accepted r \<Longrightarrow>
     passed (validate_response r) \<and> (\<exists>k. a \<le> k \<and> k \<le> mr \<and> gen k = Inr r)"
proof (induction gen mr a rule: retry_loop.induct)
  case (1 gen mr a)
  show ?case
  proof (cases "a > mr")
    case True
    with "1.prems" show ?thesis by (simp add: retry_loop.simps)
  next
    case False
    note le = False
    show ?thesis
    proof (cases "gen a")
      case (Inl e)
      with le "1.prems" have "a \<noteq> mr" "retry_loop gen mr (a + 1) = Accepted r"
        by (auto simp: retry_loop.simps[of gen mr a] split: if_splits)
      with "1.IH"(1)[OF le Inl] obtain k where p: "passed (validate_response r)"
        and k: "a + 1 \<le> k" "k \<le> mr" "gen k = Inr r" by blast
      from k(1) have "a \<le> k" by simp
      with p k show ?thesis by blast
    next
      case (Inr raw)
      show ?thesis
      proof (cases "passed (validate_response raw)")
        case True
        with le Inr "1.prems" have "r = raw" by (simp add: retry_loop.simps[of gen mr a])
        with True Inr le show ?thesis by auto
      next
        case False
        with le Inr "1.prems" have "retry_loop gen mr (a + 1) = Accepted r"
          by (simp add: retry_loop.simps[of gen mr a])
        with "1.IH"(2)[OF le Inr False] obtain k where p: "passed (validate_response r)"
          and k: "a + 1 \<le> k" "k \<le> mr" "gen k = Inr r" by blast
        from k(1) have "a \<le> k" by simp
        with p k show ?thesis by blast
      qed
    qed
  qed
qed

lemma written_single_rule:
  "written (snd (process_single_rule L env pt ph mr force st)) = written st
   \<or> (\<exists>response d. passed (validate_response response)
        \<and> written (snd (process_single_rule L env pt ph mr force st))
            = written st @ [(relative_str env,
                 dict_set (lit ''note'') (PStr (final_note (DISCLAIMER_TEXT L) response)) d)])"
  by (auto simp: process_single_rule_def record_failure_def Let_def
        split: sum.splits option.splits loop_outcome.splits dest: retry_loop_accepted)

section \<open>Lemmas: the validator on the sample texts\<close>

text \<open>
  The equations of \<open>startswith\<close>, \<open>py_in\<close> and \<open>star_bullet_search\<close> with \<open>if\<close>, which
  the simplifier evaluates from the left.
\<close>

lemma startswith_if: "startswith (p # ps) (c # cs) = (if p = c then startswith ps cs else False)"
  by simp

lemma py_in_if: "py_in sub (c # cs) = (if startswith sub (c # cs) then True else py_in sub cs)"
  by simp

lemma star_bullet_search_if:
  "star_bullet_search line_start (c # cs) =
     (if line_start then (if star_bullet_here (c # cs) then True else star_bullet_search (c = 10) cs)
      else star_bullet_search (c = 10) cs)"
  by simp


lemma body_strip: "strip guide_body = butlast guide_body"
  by (simp add: guide_body_def lit_def strip_def lstrip_def rstrip_def is_space_def)

lemma body_length: "length guide_body = 264"
  by (simp add: guide_body_def lit_def)

lemma body_nonempty: "guide_body \<noteq> [] \<and> butlast guide_body \<noteq> []"
  by (simp add: guide_body_def lit_def)

lemma body_headers: "filter (\<lambda>header. \<not> py_in header guide_body) REQUIRED_HEADERS = []"
  by (simp add: guide_body_def lit_def REQUIRED_HEADERS_def startswith_if py_in_if del: startswith.simps(3) py_in.simps(2))

lemma body_disclaimer: "\<not> py_in DISCLAIMER_PREFIX guide_body"
  by (simp add: guide_body_def lit_def DISCLAIMER_PREFIX_def startswith_if py_in_if del: startswith.simps(3) py_in.simps(2))

lemma body_fence: "\<not> py_in [96, 96, 96] guide_body"
  by (simp add: guide_body_def lit_def startswith_if py_in_if del: startswith.simps(3) py_in.simps(2))

lemma body_bullets: "\<not> star_bullet_search True guide_body"
  by (simp add: guide_body_def lit_def star_bullet_search_if star_bullet_here_def is_space_def
        del: star_bullet_search.simps(2))

lemma body_lines: "splitlines (butlast guide_body) =
   [lit ''### Technical Context'', lit ''Detects credential dumping tools.'', [],
    lit ''### Investigation Steps'', lit ''- **Review lineage**: check the parent process.'',
    lit ''- Check logon events.'', [], lit ''### Prioritization'', lit ''Treat as high severity.'', [],
    lit ''### Blind Spots and Assumptions'', lit ''Assumes process logging is enabled.'']"
  by (simp add: guide_body_def lit_def splitlines_def is_linebreak_def)

lemma body_sections: "check_section_content guide_body = []"
  unfolding check_section_content_def body_strip body_lines Let_def
  by (simp add: check_header_def REQUIRED_HEADERS_def lit_def strip_def lstrip_def rstrip_def
        is_space_def startswith_if py_in_if del: startswith.simps(3) py_in.simps(2))

lemma validate_guide_body:
  "validate_response guide_body = \<lparr>passed = False, errors = [MissingDisclaimer]\<rparr>"
  by (simp add: validate_response_def body_strip body_length body_nonempty body_headers
        body_disclaimer body_fence body_bullets body_sections MINIMUM_LENGTH_def)

lemma valid_strip: "strip valid_guide = butlast valid_guide"
  by (simp add: valid_guide_def guide_body_def disclaimer_line_def lit_def strip_def lstrip_def
        rstrip_def is_space_def)

lemma valid_length: "length valid_guide = 297"
  by (simp add: valid_guide_def guide_body_def disclaimer_line_def lit_def)

lemma valid_nonempty: "valid_guide \<noteq> [] \<and> butlast valid_guide \<noteq> []"
  by (simp add: valid_guide_def guide_body_def disclaimer_line_def lit_def)

lemma valid_headers: "filter (\<lambda>header. \<not> py_in header valid_guide) REQUIRED_HEADERS = []"
  by (simp add: valid_guide_def guide_body_def disclaimer_line_def lit_def REQUIRED_HEADERS_def
        startswith_if py_in_if del: startswith.simps(3) py_in.simps(2))

lemma valid_disclaimer: "py_in DISCLAIMER_PREFIX valid_guide"
  by (simp add: valid_guide_def guide_body_def disclaimer_line_def lit_def DISCLAIMER_PREFIX_def
        startswith_if py_in_if del: startswith.simps(3) py_in.simps(2))

lemma valid_fence: "\<not> py_in [96, 96, 96] valid_guide"
  by (simp add: valid_guide_def guide_body_def disclaimer_line_def lit_def
        startswith_if py_in_if del: startswith.simps(3) py_in.simps(2))

lemma valid_bullets: "\<not> star_bullet_search True valid_guide"
  by (simp add: valid_guide_def guide_body_def disclaimer_line_def lit_def star_bullet_search_if
        star_bullet_here_def is_space_def del: star_bullet_search.simps(2))

lemma valid_lines: "splitlines (butlast valid_guide) =
   [lit ''### Technical Context'', lit ''Detects credential dumping tools.'', [],
    lit ''### Investigation Steps'', lit ''- **Review lineage**: check the parent process.'',
    lit ''- Check logon events.'', [], lit ''### Prioritization'', lit ''Treat as high severity.'', [],
    lit ''### Blind Spots and Assumptions'', lit ''Assumes process logging is enabled.'', [],
    lit ''> **Disclaimer:** AI generated.'']"
  by (simp add: valid_guide_def guide_body_def disclaimer_line_def lit_def splitlines_def
        is_linebreak_def)

lemma valid_sections: "check_section_content valid_guide = []"
  unfolding check_section_content_def valid_strip valid_lines Let_def
  by (simp add: check_header_def REQUIRED_HEADERS_def lit_def strip_def lstrip_def rstrip_def
        is_space_def startswith_if py_in_if del: startswith.simps(3) py_in.simps(2))

lemma validate_valid_guide:
  "validate_response valid_guide = \<lparr>passed = True, errors = []\<rparr>"
  by (simp add: validate_response_def valid_strip valid_length valid_nonempty valid_headers
        valid_disclaimer valid_fence valid_bullets valid_sections MINIMUM_LENGTH_def)

lemma clean_valid_guide: "clean_markdown valid_guide = valid_guide"
  unfolding clean_markdown_eq valid_strip valid_lines
  by (simp add: clean_loop_Cons valid_guide_def guide_body_def disclaimer_line_def lit_def
        rstrip_def is_space_def)

lemma disclaimer_in_valid_guide: "py_in disclaimer_line valid_guide"
  by (simp add: valid_guide_def guide_body_def disclaimer_line_def lit_def
        startswith_if py_in_if del: startswith.simps(3) py_in.simps(2))

section \<open>Lemmas: the sample run\<close>

lemma retry_loop_valid_guide: "retry_loop (\<lambda>attempt. Inr valid_guide) 3 1 = Accepted valid_guide"
  by (simp add: retry_loop.simps[of _ 3 1] validate_valid_guide)

lemma retry_loop_guide_body: "retry_loop (\<lambda>attempt. Inr guide_body) 3 1 = NoResponse"
  by (simp add: retry_loop.simps[of _ 3 1] retry_loop.simps[of _ 3 2] retry_loop.simps[of _ 3 3]
        retry_loop.simps[of _ 3 4] validate_guide_body)

lemma final_note_valid_guide: "final_note disclaimer_line valid_guide = valid_guide"
  by (simp add: final_note_def clean_valid_guide disclaimer_in_valid_guide)

lemma should_skip_fresh: "h \<noteq> [] \<Longrightarrow> \<not> should_skip fresh_data p c h out"
  by (auto simp: should_skip_def fresh_data_def)

lemma sample_processed:
  "process_single_rule sample_lib sample_rule (lit ''prompt'') (lit ''ph'') 3 False sample_state =
     (None,
      \<lparr>cache = update_rule (lit ''2026-11-03T00:00:00+00:00'') (lit ''r.yml'')
                 (compute_rule_hash sample_lib [(lit ''title'', PStr (lit ''T''))]) fresh_data,
       result = \<lparr>total_docs = 1, processed = 1, skipped = 0, failed = 0, failures = []\<rparr>,
       written = [(lit ''r.yml'', [(lit ''title'', PStr (lit ''T'')), (lit ''note'', PStr valid_guide)])],
       cache_ops = [OpLoad, OpShouldSkip (lit ''r.yml''), OpUpdateRule (lit ''r.yml'')]\<rparr>)"
  by (simp add: process_single_rule_def sample_rule_def sample_state_def sample_lib_def
        should_skip_fresh retry_loop_valid_guide final_note_valid_guide Let_def lit_def)

section \<open>Lemmas: the generation client\<close>

lemma openai_loop_exhausted:
  "a > n \<Longrightarrow> openai_loop backend n a lx events =
     (case lx of None \<Rightarrow> Inl RaisedNone | Some e \<Rightarrow> Inl (Raised e), events)"
  by (simp add: openai_loop.simps[of backend n a] split: option.splits)

lemma openai_loop_transient:
  "a \<le> n \<Longrightarrow> backend a = Inl e \<Longrightarrow> transient e \<Longrightarrow>
     openai_loop backend n a lx events =
       openai_loop backend n (a + 1) (Some e) (events @ [Call a, Sleep (2 ^ nat a)])"
  by (cases e rule: transient.cases) (auto simp: openai_loop.simps[of backend n a])

lemma openai_loop_raise:
  "a \<le> n \<Longrightarrow> backend a = Inl e \<Longrightarrow> \<not> transient e \<Longrightarrow>
     openai_loop backend n a lx events = (Inl (Raised e), events @ [Call a])"
  by (cases e rule: transient.cases) (auto simp: openai_loop.simps[of backend n a])

lemma openai_loop_return:
  "a \<le> n \<Longrightarrow> backend a = Inr content \<Longrightarrow>
     openai_loop backend n a lx events = (Inr (returned_text content), events @ [Call a])"
  by (simp add: openai_loop.simps[of backend n a] returned_text_def)

lemma claude_is_openai:
  "claude_loop backend n a lx events = openai_loop backend n a lx events"
proof (induction backend n a lx events rule: openai_loop.induct)
  case (1 backend n a lx events)
  show ?case
  proof (cases "a > n")
    case True
    then show ?thesis
      by (simp add: openai_loop.simps[of backend n a] claude_loop.simps[of backend n a])
  next
    case False
    show ?thesis
    proof (cases "backend a")
      case (Inr content)
      with False show ?thesis
        by (simp add: openai_loop.simps[of backend n a] claude_loop.simps[of backend n a])
    next
      case (Inl e)
      show ?thesis
      proof (cases e)
        case RateLimitError
        with False Inl "1.IH"(1) show ?thesis
          by (simp add: openai_loop.simps[of backend n a] claude_loop.simps[of backend n a])
      next
        case APITimeoutError
        with False Inl "1.IH"(2) show ?thesis
          by (simp add: openai_loop.simps[of backend n a] claude_loop.simps[of backend n a])
      next
        case APIConnectionError
        with False Inl "1.IH"(3) show ?thesis
          by (simp add: openai_loop.simps[of backend n a] claude_loop.simps[of backend n a])
      next
        case (APIError status_code)
        show ?thesis
        proof (cases status_code)
          case None
          with False Inl APIError show ?thesis
            by (simp add: openai_loop.simps[of backend n a] claude_loop.simps[of backend n a])
        next
          case (Some code)
          show ?thesis
          proof (cases "code \<ge> 500")
            case True
            then have "code \<noteq> 0 \<and> code \<ge> 500" by simp
            with False Inl APIError Some "1.IH"(4) True show ?thesis
              by (simp add: openai_loop.simps[of backend n a] claude_loop.simps[of backend n a])
          next
            case False
            with \<open>\<not> a > n\<close> Inl APIError Some show ?thesis
              by (simp add: openai_loop.simps[of backend n a] claude_loop.simps[of backend n a])
          qed
        qed
      next
        case OtherError
        with False Inl show ?thesis
          by (simp add: openai_loop.simps[of backend n a] claude_loop.simps[of backend n a])
      qed
    qed
  qed
qed

lemma claude_generate_openai: "claude_generate backend n = openai_generate backend n"
  by (simp add: claude_generate_def openai_generate_def claude_is_openai)

lemma all_transient_step:
  "a \<le> b \<Longrightarrow> all_transient backend a b \<longleftrightarrow>
     (case backend a of Inl e \<Rightarrow> transient e | Inr content \<Rightarrow> False) \<and> all_transient backend (a + 1) b"
  by (simp add: all_transient_def upto_rec1)

lemma backoff_events_step:
  "a \<le> b \<Longrightarrow> backoff_events a b = [Call a, Sleep (2 ^ nat a)] @ backoff_events (a + 1) b"
  by (simp add: backoff_events_def upto_rec1)

lemma backoff_events_empty: "b < a \<Longrightarrow> backoff_events a b = []"
  by (simp add: backoff_events_def)

text \<open>The error of the lx failed attempt before \<open>k\<close>.\<close>

lemma openai_loop_skip:
  "a \<le> k \<Longrightarrow> k \<le> n + 1 \<Longrightarrow> all_transient backend a (k - 1) \<Longrightarrow>
     \<exists>lx'. openai_loop backend n a lx events =
               openai_loop backend n k lx' (events @ backoff_events a (k - 1))
        \<and> (a < k \<longrightarrow> backend (k - 1) = Inl (the lx') \<and> lx' \<noteq> None)
        \<and> (a = k \<longrightarrow> lx' = lx)"
proof (induction "nat (k - a)" arbitrary: a lx events)
  case 0
  then have "a = k" by simp
  then show ?case by (simp add: backoff_events_empty)
next
  case (Suc d)
  then have lt: "a < k" and le: "a \<le> n" by simp_all
  then have "a \<le> k - 1" by simp
  from all_transient_step[OF this] Suc.prems(3)
  obtain e where e: "backend a = Inl e" "transient e" and rest: "all_transient backend (a + 1) (k - 1)"
    by (auto split: sum.splits)
  have d: "d = nat (k - (a + 1))" using Suc.hyps(2) by simp
  from lt have le1: "a + 1 \<le> k" by simp
  from Suc.hyps(1)[OF d le1 Suc.prems(2) rest, of "Some e" "events @ [Call a, Sleep (2 ^ nat a)]"]
  obtain lx' where l:
    "openai_loop backend n (a + 1) (Some e) (events @ [Call a, Sleep (2 ^ nat a)]) =
       openai_loop backend n k lx' ((events @ [Call a, Sleep (2 ^ nat a)]) @ backoff_events (a + 1) (k - 1))"
    "a + 1 < k \<longrightarrow> backend (k - 1) = Inl (the lx') \<and> lx' \<noteq> None"
    "a + 1 = k \<longrightarrow> lx' = Some e" by blast
  have ev: "(events @ [Call a, Sleep (2 ^ nat a)]) @ backoff_events (a + 1) (k - 1)
              = events @ backoff_events a (k - 1)"
    using backoff_events_step[OF \<open>a \<le> k - 1\<close>] by simp
  have b: "backend (k - 1) = Inl (the lx') \<and> lx' \<noteq> None"
  proof (cases "a + 1 = k")
    case True
    with l(3) e(1) show ?thesis by auto
  next
    case False
    with le1 l(2) show ?thesis by simp
  qed
  have step: "openai_loop backend n a lx events =
       openai_loop backend n (a + 1) (Some e) (events @ [Call a, Sleep (2 ^ nat a)])"
    using le e by (rule openai_loop_transient)
  with l(1) ev lt b show ?case by auto
qed

lemma sample_backend_events: "backoff_events 1 2 = [Call 1, Sleep 2, Call 2, Sleep 4]"
  by (simp add: backoff_events_def upto_rec1)

section \<open>Lemmas: one rule file and the run\<close>



lemma single_rule_counter_goal:
  "fst (process_single_rule L env pt ph mr force st) = None \<longrightarrow>
     one_counter_up (result st) (result (snd (process_single_rule L env pt ph mr force st)))"
  by (simp add: process_single_rule_def record_failure_def one_counter_up_def Let_def
        split: sum.splits option.splits loop_outcome.splits)

lemma single_rule_counter:
  "process_single_rule L env pt ph mr force st = (None, st') \<Longrightarrow>
     one_counter_up (result st) (result st')"
  using single_rule_counter_goal[of L env pt ph mr force st] by simp

lemma single_rule_no_exit:
  "fst (process_single_rule L env pt ph mr force st) \<noteq> Some (SystemExit code)"
  by (auto simp: process_single_rule_def Let_def
        split: sum.splits option.splits loop_outcome.splits if_splits)

lemma one_counter_up_counted:
  "one_counter_up r r' \<Longrightarrow>
     counted r' = counted r + 1 \<and> total_docs r' = total_docs r
     \<and> int (length (failures r')) - failed r' = int (length (failures r)) - failed r"
  by (auto simp: one_counter_up_def counted_def)

lemma process_all_counters:
  "process_all L pt ph mr force envs st = (None, st') \<Longrightarrow>
     counted (result st') = counted (result st) + int (length envs)
     \<and> total_docs (result st') = total_docs (result st)
     \<and> int (length (failures (result st'))) - failed (result st')
         = int (length (failures (result st))) - failed (result st)"
proof (induction envs arbitrary: st)
  case Nil
  then show ?case by simp
next
  case (Cons env envs)
  from Cons.prems obtain st1 where
    s: "process_single_rule L env pt ph mr force st = (None, st1)"
    and r: "process_all L pt ph mr force envs st1 = (None, st')"
    by (auto split: prod.splits option.splits)
  from one_counter_up_counted[OF single_rule_counter[OF s]] Cons.IH[OF r]
  show ?case by simp
qed

lemma process_all_no_exit:
  "fst (process_all L pt ph mr force envs st) \<noteq> Some (SystemExit code)"
proof (induction envs arbitrary: st)
  case Nil
  then show ?case by simp
next
  case (Cons env envs)
  show ?case
  proof (cases "process_single_rule L env pt ph mr force st")
    case (Pair r st1)
    with single_rule_no_exit[of L env pt ph mr force st code] Cons.IH[of st1]
    show ?thesis by (cases r) auto
  qed
qed

section \<open>Lemmas: the sample run of three files\<close>

lemma retry_loop_always_raises: "retry_loop (\<lambda>attempt. Inl e) 3 1 = ApiFailed e"
  by (simp add: retry_loop.simps[of _ 3 1] retry_loop.simps[of _ 3 2] retry_loop.simps[of _ 3 3])

lemma sample_hash: "compute_rule_hash sample_lib [(lit ''title'', PStr (lit ''T''))] = lit ''eltit''"
  by (simp add: compute_rule_hash_eq sample_lib_def dict_del_def lit_def)

lemma sample_rule_processed:
  "process_single_rule sample_lib sample_rule pt ph 3 False st =
     (None,
      st\<lparr>cache_ops := cache_ops st @ [OpShouldSkip (lit ''r.yml''), OpUpdateRule (lit ''r.yml'')],
         written := written st @ [(lit ''r.yml'', [(lit ''title'', PStr (lit ''T'')),
                                              (lit ''note'', PStr valid_guide)])],
         cache := update_rule (lit ''2026-11-03T00:00:00+00:00'') (lit ''r.yml'') (lit ''eltit'') (cache st),
         result := (result st)\<lparr>processed := processed (result st) + 1\<rparr>\<rparr>)"
proof -
  have n: "\<not> should_skip (cache st) (lit ''r.yml'') (lit ''eltit'') ph Missing"
    by (simp add: should_skip_def split: option.splits)
  have k: "lit ''title'' \<noteq> lit ''note''" by (simp add: lit_def)
  show ?thesis
    by (simp add: process_single_rule_def sample_rule_def sample_hash n k retry_loop_valid_guide
          final_note_valid_guide sample_lib_def[THEN arg_cong, of DISCLAIMER_TEXT] Let_def)
qed


lemma old_rule_skipped:
  assumes "prompt_hash (cache st) = Some ph"
    and "rules_or_empty (cache st) (lit ''old.yml'') = Some [(lit ''content_hash'', lit ''eltit'')]"
  shows "process_single_rule sample_lib old_rule pt ph 3 False st =
     (None, st\<lparr>cache_ops := cache_ops st @ [OpShouldSkip (lit ''old.yml'')],
               result := (result st)\<lparr>skipped := skipped (result st) + 1\<rparr>\<rparr>)"
proof -
  have k: "lit ''title'' \<noteq> lit ''note''" by (simp add: lit_def)
  have b: "strip valid_guide \<noteq> []" using valid_strip valid_nonempty by simp
  have "should_skip (cache st) (lit ''old.yml'') (lit ''eltit'') ph
          (Loaded (PMap [(lit ''title'', PStr (lit ''T'')), (lit ''note'', PStr valid_guide)]))"
    using assms k b valid_nonempty by (simp add: should_skip_def get_note_def)
  then show ?thesis
    by (simp add: process_single_rule_def old_rule_def sample_rule_def sample_hash Let_def)
qed

lemma bad_rule_failed:
  assumes "rules_or_empty (cache st) (lit ''bad.yml'') = None"
  shows "process_single_rule sample_lib bad_rule pt ph 3 False st =
     (None, record_failure (ApiError (lit ''bad.yml'') (lit ''401 Unauthorized''))
              (st\<lparr>cache_ops := cache_ops st @ [OpShouldSkip (lit ''bad.yml'')]\<rparr>))"
proof -
  have "\<not> should_skip (cache st) (lit ''bad.yml'') (lit ''eltit'') ph Missing"
    by (simp add: should_skip_def split: option.splits)
  then show ?thesis
    by (simp add: process_single_rule_def bad_rule_def sample_rule_def sample_hash
          retry_loop_always_raises Let_def)
qed

lemma sample_keys:
  "lit ''old.yml'' \<noteq> lit ''r.yml''" "lit ''bad.yml'' \<noteq> lit ''r.yml''"
  "lit ''bad.yml'' \<noteq> lit ''old.yml''"
  by (simp_all add: lit_def)

lemma rules_update_rule:
  "rules_or_empty (update_rule now p c d)
     = (rules_or_empty d)(p \<mapsto> [(lit ''content_hash'', c), (lit ''last_processed'', now)])"
  by (simp add: update_rule_def rules_or_empty_def Let_def split: option.splits)

lemma prompt_hash_update_rule: "prompt_hash (update_rule now p c d) = prompt_hash d"
  by (simp add: update_rule_def Let_def)

lemma sample_cache_fields:
  "prompt_hash sample_cache = Some (lit ''tpmorp'')"
  "rules_or_empty sample_cache = [lit ''old.yml'' \<mapsto> [(lit ''content_hash'', lit ''eltit'')]]"
  by (simp_all add: sample_cache_def rules_or_empty_def)

lemma sample_run_result:
  "fst (process_rules sample_lib sample_run 3 False) =
     Inr \<lparr>total_docs = 3, processed = 1, skipped = 1, failed = 1,
          failures = [ApiError (lit ''bad.yml'') (lit ''401 Unauthorized'')]\<rparr>"
proof -
  have h: "compute_prompt_hash sample_lib (lit ''prompt'') = lit ''tpmorp''"
    by (simp add: compute_prompt_hash_def sample_lib_def lit_def)
  have c: "Cache_init (JsonObject sample_cache) = Inr sample_cache"
    by (simp add: Cache_init_def load_def sample_cache_def CACHE_VERSION_def)
  show ?thesis
    unfolding sample_run_def process_rules_def
    by (simp add: h c Let_def sample_cache_fields rules_update_rule prompt_hash_update_rule
          old_rule_skipped sample_rule_processed bad_rule_failed record_failure_def sample_keys)
qed

section \<open>The claims\<close>


subsection \<open>C1: the skip decision\<close>

text \<open>
  C1. For every cache index and every call \<open>should_skip(path, contentHash, promptHash,
  outputFile)\<close> the result is true if and only if the stored prompt hash is
  \<open>promptHash\<close>, an entry exists for the path whose stored content hash is
  \<open>contentHash\<close>, and the output file exists with a \<open>note\<close> field that is non-blank
  after trimming; an absent output file and an error while opening or parsing it give
  false.
\<close>

theorem should_skip_iff:
  "(should_skip data relative_path content_hash h out \<longleftrightarrow>
      prompt_hash data = Some h \<and> entry_matches data relative_path content_hash
      \<and> output_has_note out)
   \<and> \<not> should_skip data relative_path content_hash h Missing
   \<and> \<not> should_skip data relative_path content_hash h LoadFails"
proof -
  have main: "should_skip data relative_path content_hash h out' \<longleftrightarrow>
      prompt_hash data = Some h \<and> entry_matches data relative_path content_hash
      \<and> output_has_note out'" for out'
  proof (cases out')
    case Missing
    then show ?thesis
      by (auto simp: should_skip_def entry_matches_def output_has_note_def split: option.splits)
  next
    case LoadFails
    then show ?thesis
      by (auto simp: should_skip_def entry_matches_def output_has_note_def split: option.splits)
  next
    case (Loaded out_data)
    have "should_skip data relative_path content_hash h (Loaded out_data) \<longleftrightarrow>
       prompt_hash data = Some h \<and> entry_matches data relative_path content_hash
       \<and> (case get_note out_data of Inl e \<Rightarrow> False
           | Inr note \<Rightarrow> py_truthy note \<and> \<not> str_blank note)"
      by (auto simp: should_skip_def entry_matches_def split: option.splits sum.splits)
    with Loaded show ?thesis by (simp add: get_note_cases)
  qed
  show ?thesis by (simp add: main output_has_note_def)
qed

theorem should_skip_iff_witness:
  "should_skip
     \<lparr>version = Some 1, prompt_hash = Some (lit ''p1''),
      rules = Some [lit ''test.yml'' \<mapsto> [(lit ''content_hash'', lit ''c1'')]]\<rparr>
     (lit ''test.yml'') (lit ''c1'') (lit ''p1'')
     (Loaded (PMap [(lit ''title'', PStr (lit ''T'')), (lit ''note'', PStr (lit '' Guide. ''))]))"
  using should_skip_iff [of
     "\<lparr>version = Some 1, prompt_hash = Some (lit ''p1''),
      rules = Some [lit ''test.yml'' \<mapsto> [(lit ''content_hash'', lit ''c1'')]]\<rparr>"
     "lit ''test.yml''" "lit ''c1''" "lit ''p1''"
     "Loaded (PMap [(lit ''title'', PStr (lit ''T'')), (lit ''note'', PStr (lit '' Guide. ''))])"]
  by (simp add: entry_matches_def rules_or_empty_def output_has_note_def lit_def
        strip_def lstrip_def rstrip_def is_space_def)

subsection \<open>C2: the content fingerprint does not see the note\<close>



subsection \<open>C3: the written note holds the disclaimer\<close>

text \<open>
  C3. Provided the constant \<open>DISCLAIMER_TEXT\<close> holds the disclaimer marker
  \<open>DISCLAIMER_PREFIX\<close>: the final note made from any response holds the marker; when
  the marker is absent from the cleaned text, the final note is the cleaned text
  without its trailing newlines, a blank line, the disclaimer line and a newline; and
  every document \<open>_process_single_rule\<close> writes carries a note that holds the marker.
\<close>

theorem note_contains_disclaimer:
  assumes "py_in DISCLAIMER_PREFIX (DISCLAIMER_TEXT L)"
  shows "py_in DISCLAIMER_PREFIX (final_note (DISCLAIMER_TEXT L) response)
    \<and> (\<not> py_in DISCLAIMER_PREFIX (clean_markdown response) \<longrightarrow>
         final_note (DISCLAIMER_TEXT L) response
           = rstrip_nl (clean_markdown response) @ [10, 10] @ DISCLAIMER_TEXT L @ [10])
    \<and> (\<forall>pd\<in>set (written (snd (process_single_rule L env pt ph mr force st))).
          pd \<in> set (written st) \<or> note_has_marker (snd pd))"
proof -
  have marker: "py_in DISCLAIMER_PREFIX (final_note (DISCLAIMER_TEXT L) r)" for r
    using assms final_note_holds_text py_in_trans by blast
  have block: "\<not> py_in DISCLAIMER_PREFIX (clean_markdown response) \<longrightarrow>
         final_note (DISCLAIMER_TEXT L) response
           = rstrip_nl (clean_markdown response) @ [10, 10] @ DISCLAIMER_TEXT L @ [10]"
  proof
    assume "\<not> py_in DISCLAIMER_PREFIX (clean_markdown response)"
    with assms have "\<not> py_in (DISCLAIMER_TEXT L) (clean_markdown response)"
      using py_in_trans by blast
    then show "final_note (DISCLAIMER_TEXT L) response
           = rstrip_nl (clean_markdown response) @ [10, 10] @ DISCLAIMER_TEXT L @ [10]"
      by (simp add: final_note_def Let_def)
  qed
  have pipe: "\<forall>pd\<in>set (written (snd (process_single_rule L env pt ph mr force st))).
          pd \<in> set (written st) \<or> note_has_marker (snd pd)"
    using written_single_rule[of L env pt ph mr force st] marker note_has_marker_set
    by auto
  from marker block pipe show ?thesis by blast
qed

theorem note_contains_disclaimer_witness:
  "py_in DISCLAIMER_PREFIX (DISCLAIMER_TEXT sample_lib)
   \<and> final_note (DISCLAIMER_TEXT sample_lib) (lit ''  Guide  '')
       = lit ''Guide\<newline>\<newline>> **Disclaimer:** AI generated.\<newline>''
   \<and> written (snd (process_single_rule sample_lib sample_rule (lit ''prompt'') (lit ''ph'') 3 False
                     sample_state))
       = [(lit ''r.yml'', [(lit ''title'', PStr (lit ''T'')), (lit ''note'', PStr valid_guide)])]
   \<and> note_has_marker [(lit ''title'', PStr (lit ''T'')), (lit ''note'', PStr valid_guide)]"
proof -
  have a: "py_in DISCLAIMER_PREFIX (DISCLAIMER_TEXT sample_lib)"
    by (simp add: sample_lib_def disclaimer_line_def DISCLAIMER_PREFIX_def lit_def)
  have c: "clean_markdown (lit ''  Guide  '') = lit ''Guide\<newline>''"
    by (simp add: clean_markdown_def lit_def splitlines_def strip_def lstrip_def rstrip_def
          is_space_def is_linebreak_def endswith_def Let_def clean_loop.simps)
  have n: "\<not> py_in DISCLAIMER_PREFIX (lit ''Guide\<newline>'')"
    by (simp add: DISCLAIMER_PREFIX_def lit_def)
  have r: "rstrip_nl (lit ''Guide\<newline>'') = lit ''Guide''"
    by (simp add: rstrip_nl_def lit_def)
  have w: "written (snd (process_single_rule sample_lib sample_rule (lit ''prompt'') (lit ''ph'') 3 False
                     sample_state))
       = [(lit ''r.yml'', [(lit ''title'', PStr (lit ''T'')), (lit ''note'', PStr valid_guide)])]"
    by (simp add: sample_processed)
  have s: "written sample_state = []" by (simp add: sample_state_def)
  from note_contains_disclaimer [OF a, of "lit ''  Guide  ''" sample_rule "lit ''prompt''" "lit ''ph''"
         3 False sample_state]
  have "final_note (DISCLAIMER_TEXT sample_lib) (lit ''  Guide  '')
       = lit ''Guide'' @ [10, 10] @ DISCLAIMER_TEXT sample_lib @ [10]"
    and "note_has_marker [(lit ''title'', PStr (lit ''T'')), (lit ''note'', PStr valid_guide)]"
    by (simp_all add: c n r w s)
  with a w show ?thesis by (simp add: sample_lib_def disclaimer_line_def lit_def)
qed

subsection \<open>C4: a missing disclaimer alone fails the validation loop\<close>

text \<open>
  C4 says that a text whose only violation is the missing disclaimer marker is accepted
  by the generate and validate loop. The validator of this repository reports the
  missing marker as an error like any other, so \<open>passed\<close> is false: for the sample guide,
  which has the four sections with content, more than 200 characters, dash bullets and
  no code fence, the only error is the missing disclaimer, the loop ends without a
  response after three attempts, and the document is counted as failed. The
  repository's own test \<open>test_missing_disclaimer_still_passes\<close> expects \<open>passed\<close> to be
  true for such a text.
\<close>

theorem missing_disclaimer_fails_validation:
  "validate_response guide_body = \<lparr>passed = False, errors = [MissingDisclaimer]\<rparr>
   \<and> retry_loop (\<lambda>attempt. Inr guide_body) 3 1 = NoResponse
   \<and> result (snd (process_single_rule sample_lib
                     (sample_rule\<lparr>generate := (\<lambda>prompt rule_text attempt. Inr guide_body)\<rparr>)
                     (lit ''prompt'') (lit ''ph'') 3 False sample_state))
       = \<lparr>total_docs = 1, processed = 0, skipped = 0, failed = 1,
          failures = [ValidationFailed (lit ''r.yml'') 3]\<rparr>"
  by (simp add: validate_guide_body retry_loop_guide_body process_single_rule_def sample_rule_def
        sample_state_def sample_lib_def should_skip_fresh record_failure_def Let_def lit_def)

subsection \<open>C5: no rule file found\<close>

text \<open>
  C5 as amended. When no rule file is found (the prompt was read, the output directory
  made and the cache constructed before the files are collected), the run ends with
  \<open>SystemExit(1)\<close>; the cache has then been loaded, and nothing else was done with it:
  no entry or prompt hash was set, it was not saved, and the cache file is as before.
  A run that finds a rule file does not end with \<open>SystemExit\<close>.

  As the claim was stated, the run ends before any interaction with the cache, the load
  included. The counterexample is the run without rule files: it ends with
  \<open>SystemExit(1)\<close> after the load; and over a cache file that is not UTF-8 it ends with
  the exception of the load, before the files are even collected.
\<close>

theorem zero_documents_abort_after_load:
  "(yaml_files env = [] \<and> read_prompt env = Inr pt \<and> mkdir_output env = None
      \<and> Cache_init (cache_file_before env) = Inr c0 \<longrightarrow>
        process_rules L env mr force
          = (Inl (SystemExit 1), \<lparr>cache_file_after = cache_file_before env, ops = [OpLoad]\<rparr>))
   \<and> (yaml_files env \<noteq> [] \<longrightarrow> fst (process_rules L env mr force) \<noteq> Inl (SystemExit code))"
proof -
  have a: "process_rules L env mr force
          = (Inl (SystemExit 1), \<lparr>cache_file_after = cache_file_before env, ops = [OpLoad]\<rparr>)"
    if "yaml_files env = []" "read_prompt env = Inr pt" "mkdir_output env = None"
       "Cache_init (cache_file_before env) = Inr c0"
    using that by (simp add: process_rules_def Let_def)
  have b: "fst (process_rules L env mr force) \<noteq> Inl (SystemExit code)" if "yaml_files env \<noteq> []"
  proof -
    have "fst (process_all L pt' ph mr force envs st) \<noteq> Some (SystemExit code)" for pt' ph envs st
      by (rule process_all_no_exit)
    then have n: "process_all L pt' ph mr force envs st \<noteq> (Some (SystemExit code), st1)"
      for pt' ph envs st st1 by (metis fst_conv)
    show ?thesis using that n
      by (auto simp: process_rules_def Let_def Cache_init_def load_def
            split: sum.splits option.splits prod.splits cache_file.splits if_splits)
  qed
  from a b show ?thesis by blast
qed

theorem zero_documents_abort_after_load_witness:
  "process_rules sample_lib empty_run 3 False
     = (Inl (SystemExit 1), \<lparr>cache_file_after = JsonObject sample_cache, ops = [OpLoad]\<rparr>)
   \<and> fst (process_rules sample_lib sample_run 3 False) \<noteq> Inl (SystemExit 1)"
proof -
  have c: "Cache_init (cache_file_before empty_run) = Inr sample_cache"
    by (simp add: empty_run_def sample_run_def Cache_init_def load_def sample_cache_def
          CACHE_VERSION_def)
  have f: "yaml_files empty_run = [] \<and> read_prompt empty_run = Inr (lit ''prompt'')
           \<and> mkdir_output empty_run = None \<and> cache_file_before empty_run = JsonObject sample_cache"
    by (simp add: empty_run_def sample_run_def)
  have g: "yaml_files sample_run \<noteq> []" by (simp add: sample_run_def)
  from zero_documents_abort_after_load [of empty_run "lit ''prompt''" sample_cache sample_lib 3 False 1]
    zero_documents_abort_after_load [of sample_run "lit ''prompt''" sample_cache sample_lib 3 False 1]
    c f g
  show ?thesis by simp
qed

theorem zero_documents_no_cache_interaction_counterexample:
  "yaml_files empty_run = []
   \<and> process_rules sample_lib empty_run 3 False
      = (Inl (SystemExit 1), \<lparr>cache_file_after = JsonObject sample_cache, ops = [OpLoad]\<rparr>)
   \<and> process_rules sample_lib (empty_run\<lparr>cache_file_before := NotUtf8\<rparr>) 3 False
      = (Inl (PyException (lit ''UnicodeDecodeError'')), \<lparr>cache_file_after = NotUtf8, ops = [OpLoad]\<rparr>)"
  by (simp add: process_rules_def empty_run_def sample_run_def Cache_init_def load_def
        sample_cache_def CACHE_VERSION_def Let_def)

subsection \<open>C6: the generation client retries transient failures\<close>

text \<open>
  C6. For both providers and every \<open>api_max_retries = n\<close>: when the attempts before
  attempt \<open>k \<le> n\<close> fail with transient failures and attempt \<open>k\<close> fails with a failure
  that is not transient, that failure is raised after the call of attempt \<open>k\<close>, with no
  further call and no sleep after it; when attempt \<open>k\<close> answers, the stripped content is
  returned; when all \<open>n \<ge> 1\<close> attempts fail with transient failures, the failure of
  attempt \<open>n\<close> is raised after \<open>n\<close> calls. Each failed attempt \<open>j\<close> that is retried is
  followed by a sleep of \<open>2 ^ j\<close> seconds, the first attempt being attempt 1.
\<close>

theorem generate_retries_transient_failures:
  "(1 \<le> k \<and> k \<le> n \<and> all_transient backend 1 (k - 1) \<and> backend k = Inl e \<and> \<not> transient e \<longrightarrow>
      openai_generate backend n = (Inl (Raised e), backoff_events 1 (k - 1) @ [Call k])
      \<and> claude_generate backend n = (Inl (Raised e), backoff_events 1 (k - 1) @ [Call k]))
   \<and> (1 \<le> k \<and> k \<le> n \<and> all_transient backend 1 (k - 1) \<and> backend k = Inr content \<longrightarrow>
      openai_generate backend n = (Inr (returned_text content), backoff_events 1 (k - 1) @ [Call k])
      \<and> claude_generate backend n = (Inr (returned_text content), backoff_events 1 (k - 1) @ [Call k]))
   \<and> (1 \<le> n \<and> all_transient backend 1 n \<and> backend n = Inl e \<longrightarrow>
      openai_generate backend n = (Inl (Raised e), backoff_events 1 n)
      \<and> claude_generate backend n = (Inl (Raised e), backoff_events 1 n))"
proof -
  have stop: "openai_generate backend n = (Inl (Raised e), backoff_events 1 (k - 1) @ [Call k])"
    if "1 \<le> k" "k \<le> n" "all_transient backend 1 (k - 1)" "backend k = Inl e" "\<not> transient e"
  proof -
    from that(2) have "k \<le> n + 1" by simp
    from openai_loop_skip[OF that(1) this that(3), of None "[]"]
    obtain lx' where "openai_loop backend n 1 None [] =
        openai_loop backend n k lx' ([] @ backoff_events 1 (k - 1))" by blast
    with that show ?thesis
      by (simp add: openai_generate_def openai_loop_raise)
  qed
  have ret: "openai_generate backend n = (Inr (returned_text content), backoff_events 1 (k - 1) @ [Call k])"
    if "1 \<le> k" "k \<le> n" "all_transient backend 1 (k - 1)" "backend k = Inr content"
  proof -
    from that(2) have "k \<le> n + 1" by simp
    from openai_loop_skip[OF that(1) this that(3), of None "[]"]
    obtain lx' where "openai_loop backend n 1 None [] =
        openai_loop backend n k lx' ([] @ backoff_events 1 (k - 1))" by blast
    with that show ?thesis
      by (simp add: openai_generate_def openai_loop_return)
  qed
  have exh: "openai_generate backend n = (Inl (Raised e), backoff_events 1 n)"
    if "1 \<le> n" "all_transient backend 1 n" "backend n = Inl e"
  proof -
    have a: "(1::int) \<le> n + 1" "n + 1 \<le> n + 1" "all_transient backend 1 (n + 1 - 1)"
      using that by simp_all
    from openai_loop_skip[OF a, of None "[]"] that(1)
    obtain lx' where l: "openai_loop backend n 1 None [] =
        openai_loop backend n (n + 1) lx' ([] @ backoff_events 1 n)"
      "backend n = Inl (the lx')" "lx' \<noteq> None" by auto
    with that(3) have "lx' = Some e" by auto
    with l(1) openai_loop_exhausted[of n "n + 1" backend lx' "backoff_events 1 n"] show ?thesis
      by (simp add: openai_generate_def)
  qed
  show ?thesis using stop ret exh by (simp add: claude_generate_openai)
qed

theorem generate_retries_transient_failures_witness:
  "openai_generate sample_backend 5
     = (Inl (Raised (APIError (Some 404))), [Call 1, Sleep 2, Call 2, Sleep 4, Call 3])
   \<and> claude_generate sample_backend 2
     = (Inl (Raised (APIError (Some 503))), [Call 1, Sleep 2, Call 2, Sleep 4])
   \<and> claude_generate (\<lambda>k. if k < 3 then sample_backend k else Inr (Some (lit '' ok ''))) 3
     = (Inr (lit ''ok''), [Call 1, Sleep 2, Call 2, Sleep 4, Call 3])"
proof -
  have t: "all_transient sample_backend 1 (3 - 1)"
    by (simp add: all_transient_def sample_backend_def upto_rec1)
  have t': "all_transient (\<lambda>k. if k < 3 then sample_backend k else Inr (Some (lit '' ok ''))) 1 (3 - 1)"
    by (simp add: all_transient_def sample_backend_def upto_rec1)
  have s: "returned_text (Some (lit '' ok '')) = lit ''ok''"
    by (simp add: returned_text_def lit_def strip_def lstrip_def rstrip_def is_space_def)
  from generate_retries_transient_failures [of 3 5 sample_backend "APIError (Some 404)" None]
    generate_retries_transient_failures [of 3 2 sample_backend "APIError (Some 503)" None]
    generate_retries_transient_failures
      [of 3 3 "\<lambda>k. if k < 3 then sample_backend k else Inr (Some (lit '' ok ''))" OtherError
          "Some (lit '' ok '')"]
    t t' s
  show ?thesis by (simp add: sample_backend_def sample_backend_events)
qed

subsection \<open>C7: a failed write leaves the cache as it was\<close>



subsection \<open>C8: the cache file round trip\<close>

text \<open>
  C8. After \<open>set_prompt_hash(h)\<close>, \<open>update_rule(p, c)\<close> and a \<open>save()\<close> whose write goes
  through, a cache constructed anew over the same file loads the index that was saved:
  its prompt hash is \<open>h\<close> and its entry for \<open>p\<close> has the content hash \<open>c\<close>.
\<close>

theorem cache_round_trip:
  assumes "Cache_init file0 = Inr c0" and "fault = None"
  shows "Cache_init (save fault (update_rule now p c (set_prompt_hash h c0)) file0)
           = Inr (update_rule now p c (set_prompt_hash h c0))
         \<and> prompt_hash (update_rule now p c (set_prompt_hash h c0)) = Some h
         \<and> entry_matches (update_rule now p c (set_prompt_hash h c0)) p c"
  using Cache_init_version[OF assms(1)] assms(2)
  by (simp add: Cache_init_def load_def save_def update_rule_def set_prompt_hash_def
        entry_matches_def rules_or_empty_def Let_def lit_def)

theorem cache_round_trip_witness:
  "Cache_init NoFile = Inr fresh_data
   \<and> Cache_init (save None (update_rule (lit ''2026'') (lit ''rules/test.yml'') (lit ''hash_value'')
                     (set_prompt_hash (lit ''abc123'') fresh_data)) NoFile)
       = Inr (update_rule (lit ''2026'') (lit ''rules/test.yml'') (lit ''hash_value'')
                     (set_prompt_hash (lit ''abc123'') fresh_data))
   \<and> entry_matches (update_rule (lit ''2026'') (lit ''rules/test.yml'') (lit ''hash_value'')
                     (set_prompt_hash (lit ''abc123'') fresh_data))
        (lit ''rules/test.yml'') (lit ''hash_value'')"
proof -
  have a: "Cache_init NoFile = Inr fresh_data" by (simp add: Cache_init_def load_def)
  from cache_round_trip [OF a refl, of "lit ''2026''" "lit ''rules/test.yml''" "lit ''hash_value''"
         "lit ''abc123''"] a
  show ?thesis by simp
qed

subsection \<open>C9: the counters add up\<close>

text \<open>
  C9. When \<open>process_rules\<close> returns a result, \<open>processed + skipped + failed\<close> is
  \<open>total\<close>, the number of files found, and the list of failures is as long as \<open>failed\<close>;
  and every processing of one file that returns raises exactly one of the three
  counters by one.
\<close>

theorem counters_add_up:
  assumes "process_rules L env mr force = (Inr res, tr)"
  shows "processed res + skipped res + failed res = total_docs res
    \<and> int (length (failures res)) = failed res
    \<and> total_docs res = int (length (yaml_files env))
    \<and> (\<forall>renv pt ph st st'. process_single_rule L renv pt ph mr force st = (None, st')
          \<longrightarrow> one_counter_up (result st) (result st'))"
proof -
  from assms obtain pt c0 st' where
    p: "process_all L pt (compute_prompt_hash L pt) mr force (yaml_files env)
          \<lparr>cache = c0,
           result = \<lparr>total_docs = int (length (yaml_files env)), processed = 0, skipped = 0,
                     failed = 0, failures = []\<rparr>,
           written = [], cache_ops = [OpLoad]\<rparr> = (None, st')"
    and r: "res = result st'"
    by (auto simp: process_rules_def Let_def
          split: sum.splits option.splits if_splits prod.splits)
  from process_all_counters[OF p] r show ?thesis
    using single_rule_counter by (auto simp: counted_def)
qed

theorem counters_add_up_witness:
  "fst (process_rules sample_lib sample_run 3 False) =
     Inr \<lparr>total_docs = 3, processed = 1, skipped = 1, failed = 1,
          failures = [ApiError (lit ''bad.yml'') (lit ''401 Unauthorized'')]\<rparr>"
proof -
  obtain tr where e: "process_rules sample_lib sample_run 3 False =
     (Inr \<lparr>total_docs = 3, processed = 1, skipped = 1, failed = 1,
          failures = [ApiError (lit ''bad.yml'') (lit ''401 Unauthorized'')]\<rparr>, tr)"
    using sample_run_result by (cases "process_rules sample_lib sample_run 3 False") auto
  from counters_add_up [OF e] e show ?thesis by simp
qed

subsection \<open>C10: the markdown cleanup is idempotent\<close>

text \<open>
  C10. \<open>_clean_markdown\<close> is idempotent, and for every text its result ends with
  exactly one newline (it is a body that does not end with a newline, then one
  newline), has no line with trailing whitespace and has no two blank lines in a row.
\<close>

theorem clean_markdown_idempotent:
  "clean_markdown (clean_markdown t) = clean_markdown t
   \<and> (\<exists>body. clean_markdown t = body @ [10] \<and> \<not> endswith [10] body)
   \<and> (\<forall>l\<in>set (splitlines (clean_markdown t)). l = [] \<or> \<not> is_space (last l))
   \<and> (\<forall>i. Suc i < length (splitlines (clean_markdown t)) \<longrightarrow>
          \<not> (strip (splitlines (clean_markdown t) ! i) = []
             \<and> strip (splitlines (clean_markdown t) ! Suc i) = []))"
proof -
  let ?out = "clean_loop [] True (splitlines (strip t))"
  have t: "tidy ?out" by (rule tidy_lines)
  have idem: "clean_markdown (clean_markdown t) = clean_markdown t"
    using tidy_roundtrip[OF t] by (simp add: clean_markdown_eq)
  have one: "\<exists>body. clean_markdown t = body @ [10] \<and> \<not> endswith [10] body"
    using join_nl_no_newline_end[OF t] clean_markdown_eq[of t] by blast
  have rs: "\<forall>l\<in>set (splitlines (clean_markdown t)). rstripped l"
    using t by (auto simp: splitlines_clean_markdown tidy_def rstripped_def)
  then have trail: "\<forall>l\<in>set (splitlines (clean_markdown t)). l = [] \<or> \<not> is_space (last l)"
    by (simp add: rstripped_def)
  have ndb: "no_double_blank (splitlines (clean_markdown t))"
    using t by (auto simp: splitlines_clean_markdown tidy_def)
  have blank: "\<forall>i. Suc i < length (splitlines (clean_markdown t)) \<longrightarrow>
          \<not> (strip (splitlines (clean_markdown t) ! i) = []
             \<and> strip (splitlines (clean_markdown t) ! Suc i) = [])"
  proof (intro allI impI notI)
    fix i
    assume i: "Suc i < length (splitlines (clean_markdown t))"
      and b: "strip (splitlines (clean_markdown t) ! i) = []
             \<and> strip (splitlines (clean_markdown t) ! Suc i) = []"
    from i rs have "rstripped (splitlines (clean_markdown t) ! i)"
      "rstripped (splitlines (clean_markdown t) ! Suc i)" by simp_all
    with b have "splitlines (clean_markdown t) ! i = [] \<and> splitlines (clean_markdown t) ! Suc i = []"
      using strip_Nil_rstripped by blast
    with no_double_blank_nth[OF ndb i] show False by blast
  qed
  from idem one trail blank show ?thesis by blast
qed

theorem clean_markdown_idempotent_witness:
  "clean_markdown (lit ''  # T  \<newline>\<newline>\<newline> x  \<newline>\<newline>'') = lit ''# T\<newline>\<newline> x\<newline>''
   \<and> clean_markdown (lit ''# T\<newline>\<newline> x\<newline>'') = lit ''# T\<newline>\<newline> x\<newline>''"
proof -
  have v: "clean_markdown (lit ''  # T  \<newline>\<newline>\<newline> x  \<newline>\<newline>'') = lit ''# T\<newline>\<newline> x\<newline>''"
    by (simp add: clean_markdown_def lit_def splitlines_def strip_def lstrip_def rstrip_def
          is_space_def is_linebreak_def endswith_def Let_def clean_loop.simps)
  from clean_markdown_idempotent [of "lit ''  # T  \<newline>\<newline>\<newline> x  \<newline>\<newline>''"] v
  show ?thesis by simp
qed

end
